theory Spec2Isabelle
  imports Complex_Main
begin

section \<open>Numbers, vectors and matrices\<close>

text \<open>
  The engine computes on JavaScript numbers. They are embedded as \<^typ>\<open>real\<close>: every
  arithmetic operation is the exact one, so rounding, \<open>NaN\<close> and the infinities are outside
  the embedding. Every division of the matrix code sits behind a guard of the source (a sum
  that is not zero, a pivot of absolute value at least \<open>1e-10\<close>, a rest sum above
  \<open>0.0001\<close>, a mixing time that is not zero), and the guards are part of the definitions
  below; the denominator of the production term of the capital code is positive for a
  positive threshold \<open>H\<close> and nonnegative capital. A \<open>Vector\<close> is \<open>number[]\<close> and a
  \<open>Matrix\<close> is \<open>number[][]\<close>, as in \<open>types.ts\<close>. The engine reads its vectors and
  matrices at indices inside them whenever they have the shapes of the data model (five
  states, square matrices); the theorems state the shapes they rely on. Where an index
  comes from the caller (\<open>updateMatrixProbability\<close>) the out-of-range cases are branches of
  the definition.
\<close>

type_synonym Vector = "real list"
type_synonym Matrix = "real list list"

definition STATES_COUNT :: nat where
  "STATES_COUNT = 5"

text \<open>\<open>cloneMatrix\<close>: \<open>m.map(row => [...row])\<close>.\<close>

definition cloneMatrix :: "Matrix \<Rightarrow> Matrix" where
  "cloneMatrix m = map (\<lambda>row. row) m"

text \<open>\<open>normalizeRow\<close>: the sum is \<open>row.reduce((a, b) => a + b, 0)\<close>, a left fold.\<close>

definition normalizeRow :: "Vector \<Rightarrow> Vector" where
  "normalizeRow row =
     (let s = foldl (+) 0 row in if s = 0 then row else map (\<lambda>v. v / s) row)"

text \<open>
  \<open>multiplyVectorMatrix\<close>: entry \<open>j\<close> of the result starts at 0 and accumulates
  \<open>v[i] * m[i][j]\<close> for \<open>i = 0, ..., v.length - 1\<close>.
\<close>

definition multiplyVectorMatrix :: "Vector \<Rightarrow> Matrix \<Rightarrow> Vector" where
  "multiplyVectorMatrix v m =
     map (\<lambda>j. foldl (\<lambda>acc i. acc + v ! i * m ! i ! j) 0 [0..<length v]) [0..<length v]"

subsection \<open>Gaussian elimination\<close>

text \<open>
  \<open>updRange f lo hi row\<close> is the loop \<open>for (j = lo; j < hi; j++) row[j] = f(j, row[j])\<close>.
\<close>

definition updRange :: "(nat \<Rightarrow> real \<Rightarrow> real) \<Rightarrow> nat \<Rightarrow> nat \<Rightarrow> Vector \<Rightarrow> Vector" where
  "updRange f lo hi row = foldl (\<lambda>r j. r[j := f j (r ! j)]) row [lo..<hi]"

text \<open>The pivot search: the first row of largest absolute value in column \<open>i\<close>, from row \<open>i\<close> on.\<close>

definition findPivot :: "Matrix \<Rightarrow> nat \<Rightarrow> nat \<Rightarrow> nat" where
  "findPivot M n i =
     foldl (\<lambda>pivotRow j. if \<bar>M ! j ! i\<bar> > \<bar>M ! pivotRow ! i\<bar> then j else pivotRow) i [i + 1..<n]"

text \<open>\<open>[M[i], M[pivotRow]] = [M[pivotRow], M[i]]\<close>: both rows are read before either is written.\<close>

definition swapRows :: "Matrix \<Rightarrow> nat \<Rightarrow> nat \<Rightarrow> Matrix" where
  "swapRows M i pivotRow = (M[i := M ! pivotRow])[pivotRow := M ! i]"

text \<open>The loop over \<open>k \<noteq> i\<close> that subtracts \<open>M[k][i]\<close> times row \<open>i\<close> from row \<open>k\<close>, columns \<open>i..n\<close>.\<close>

definition eliminateRows :: "nat \<Rightarrow> nat \<Rightarrow> Matrix \<Rightarrow> Matrix" where
  "eliminateRows n i M =
     foldl (\<lambda>M' k'. if k' \<noteq> i
                     then (let factor = M' ! k' ! i
                           in M'[k' := updRange (\<lambda>j x. x - factor * M' ! i ! j) i (n + 1) (M' ! k')])
                     else M')
       M [0..<n]"

text \<open>The singularity tolerance \<open>1e-10\<close>.\<close>

definition pivotTolerance :: real where
  "pivotTolerance = 1 / 10 ^ 10"

text \<open>
  One pass of the outer loop for column \<open>i\<close>. When the pivot is below the tolerance the source
  executes \<open>continue\<close>: the rows stay swapped and nothing else happens.
\<close>

definition gaussStep :: "nat \<Rightarrow> Matrix \<Rightarrow> nat \<Rightarrow> Matrix" where
  "gaussStep n M i =
     (let pivotRow = findPivot M n i;
          M1 = swapRows M i pivotRow;
          pivotVal = M1 ! i ! i
      in if \<bar>pivotVal\<bar> < pivotTolerance then M1
         else eliminateRows n i (M1[i := updRange (\<lambda>j x. x / pivotVal) i (n + 1) (M1 ! i)]))"

definition augment :: "Matrix \<Rightarrow> Vector \<Rightarrow> Matrix" where
  "augment A' b = map (\<lambda>i. A' ! i @ [b ! i]) [0..<length A']"

definition solveLinearSystem :: "Matrix \<Rightarrow> Vector \<Rightarrow> Vector" where
  "solveLinearSystem A' b =
     (let n = length A';
          M = augment A' b
      in map (\<lambda>row. row ! n) (foldl (gaussStep n) M [0..<n]))"

subsection \<open>Steady state\<close>

definition setCell :: "Matrix \<Rightarrow> nat \<Rightarrow> nat \<Rightarrow> real \<Rightarrow> Matrix" where
  "setCell m i j x = m[i := (m ! i)[j := x]]"

text \<open>
  \<open>steadyStateSystem\<close> is the matrix \<open>A\<close> of \<open>calculateSteadyState\<close>: the transpose minus
  the identity, then the last row overwritten with ones, cell by cell.
\<close>

definition steadyStateSystem :: "Matrix \<Rightarrow> Matrix" where
  "steadyStateSystem m =
     (let n = length m;
          A0 = map (\<lambda>i. map (\<lambda>j. (if i = j then m ! j ! i - 1 else m ! j ! i)) [0..<n]) [0..<n]
      in foldl (\<lambda>A' j. setCell A' (n - 1) j 1) A0 [0..<n])"

definition calculateSteadyState :: "Matrix \<Rightarrow> Vector" where
  "calculateSteadyState m =
     (let n = length m;
          A' = steadyStateSystem m;
          b = (replicate n 0)[n - 1 := 1]
      in solveLinearSystem A' b)"

text \<open>\<open>calculateExpectedValue\<close>: \<open>dist.reduce((sum, prob, index) => sum + prob * index, 0)\<close>.\<close>

definition calculateExpectedValue :: "Vector \<Rightarrow> real" where
  "calculateExpectedValue distv =
     foldl (\<lambda>acc (prob, index). acc + prob * real index) 0 (zip distv [0..<length distv])"

section \<open>The chain simulator\<close>

definition createBaselineMatrix :: Matrix where
  "createBaselineMatrix =
     (let matrix =
        [[0.90, 0.09, 0.01, 0.00, 0.00],
         [0.15, 0.70, 0.14, 0.01, 0.00],
         [0.01, 0.20, 0.60, 0.18, 0.01],
         [0.00, 0.05, 0.20, 0.60, 0.15],
         [0.00, 0.00, 0.10, 0.40, 0.50]]
      in map normalizeRow matrix)"

datatype error = TypeError

text \<open>
  \<open>updateMatrixProbability\<close>. A row index outside the matrix makes \<open>row\<close> undefined and the
  read \<open>row[colIdx]\<close> throws. A column index outside the row makes \<open>oldValue\<close> undefined:
  the comparison with \<open>newValue\<close> is false, the write extends the row to \<open>colIdx + 1\<close>
  cells, \<open>currentRestSum\<close> is \<open>NaN\<close> so the test \<open>> 0.0001\<close> fails, and the even branch
  fills every other cell.
\<close>

definition updateMatrixProbability ::
    "Matrix \<Rightarrow> nat \<Rightarrow> nat \<Rightarrow> real \<Rightarrow> error + Matrix" where
  "updateMatrixProbability matrix rowIdx colIdx newValue0 =
     (if rowIdx \<ge> length matrix then Inl TypeError
      else
        let newMatrix = cloneMatrix matrix;
            row = newMatrix ! rowIdx;
            newValue = max 0 (min 1 newValue0)
        in if colIdx < length row then
             (let oldValue = row ! colIdx
              in if oldValue = newValue then Inr newMatrix
                 else
                   let row1 = row[colIdx := newValue];
                       currentRestSum = 1 - oldValue;
                       row2 =
                         (if currentRestSum > 0.0001
                          then let scaleFactor = (1 - newValue) / currentRestSum
                               in foldl (\<lambda>r j. if j \<noteq> colIdx then r[j := r ! j * scaleFactor] else r)
                                    row1 [0..<length row1]
                          else let remainder = 1 - newValue;
                                   targets = length row1 - 1
                               in if targets > 0
                                  then foldl (\<lambda>r j. if j \<noteq> colIdx
                                                     then r[j := remainder / real targets] else r)
                                         row1 [0..<length row1]
                                  else row1)
                   in Inr (newMatrix[rowIdx := normalizeRow row2]))
           else
             (let remainder = 1 - newValue;
                  targets = colIdx;
                  row2 = (if targets > 0
                          then replicate colIdx (remainder / real targets) @ [newValue]
                          else [newValue])
              in Inr (newMatrix[rowIdx := normalizeRow row2])))"

text \<open>One pass of the loop of \<open>applyMicroHabit\<close>, for state \<open>i\<close>.\<close>

definition microHabitStep :: "real \<Rightarrow> Matrix \<Rightarrow> nat \<Rightarrow> Matrix" where
  "microHabitStep impactFactor matrix i =
     (let m1 = (if i < STATES_COUNT - 1
                then setCell matrix i (i + 1) (matrix ! i ! (i + 1) + impactFactor) else matrix);
          m2 = (if i = STATES_COUNT - 1
                then setCell m1 i i (m1 ! i ! i + impactFactor) else m1)
      in if i > 0 then setCell m2 i (i - 1) (max 0 (m2 ! i ! (i - 1) - impactFactor))
         else setCell m2 i i (max 0 (m2 ! i ! i - impactFactor)))"

definition applyMicroHabit :: "Matrix \<Rightarrow> real \<Rightarrow> Matrix" where
  "applyMicroHabit baseMatrix impactFactor =
     map normalizeRow
       (foldl (microHabitStep impactFactor) (cloneMatrix baseMatrix) [0..<STATES_COUNT])"

definition threshold :: real where
  "threshold = 0.00001"

definition maxSteps :: nat where
  "maxSteps = 5000"

text \<open>The L1 change of \<open>calculateMixingTime\<close>, accumulated over the five states.\<close>

definition l1Change :: "Vector \<Rightarrow> Vector \<Rightarrow> real" where
  "l1Change distv prevDist =
     foldl (\<lambda>change i. change + \<bar>distv ! i - prevDist ! i\<bar>) 0 [0..<STATES_COUNT]"

text \<open>
  The loop of \<open>calculateMixingTime\<close> from step \<open>t\<close> on; \<open>prevDist\<close> is overwritten with a copy
  of the current distribution \<open>distv\<close> at the end of every pass.
\<close>

function mixingLoop :: "Matrix \<Rightarrow> nat \<Rightarrow> Vector \<Rightarrow> Vector \<Rightarrow> nat" where
  "mixingLoop matrix t distv prevDist =
     (if t < maxSteps
      then if l1Change (multiplyVectorMatrix distv matrix) prevDist < threshold then t
           else mixingLoop matrix (t + 1) (multiplyVectorMatrix distv matrix)
                  (multiplyVectorMatrix distv matrix)
      else maxSteps)"
  by pat_completeness auto
termination
  by (relation "measure (\<lambda>(matrix, t, distv, prevDist). maxSteps - t)") auto

definition calculateMixingTime :: "Matrix \<Rightarrow> nat" where
  "calculateMixingTime matrix = mixingLoop matrix 1 [1, 0, 0, 0, 0] [1, 0, 0, 0, 0]"

definition estimateSpectralGap :: "nat \<Rightarrow> real" where
  "estimateSpectralGap mixingTime = (if mixingTime = 0 then 0 else 1 / real mixingTime)"

record SimulationConfig =
  years :: nat
  impactFactor :: real
  initialState :: nat

record SimulationStep =
  day :: nat
  baselineExpectedValue :: real
  habitExpectedValue :: real
  baselineDist :: Vector
  habitDist :: Vector

record SimulationResult =
  timeline :: "SimulationStep list"
  baselineFinalDist :: Vector
  habitFinalDist :: Vector
  baselineMatrix :: Matrix
  habitMatrix :: Matrix
  mixingTime :: nat
  spectralGap :: real
  probabilityImprovement :: real
  steadyState :: Vector

text \<open>
  One pass of the main loop of \<open>runSimulation\<close> at step \<open>t\<close>, on the state
  \<open>(v_base, v_habit, timeline)\<close>: sample, then advance.
\<close>

definition simulationStep ::
    "Matrix \<Rightarrow> Matrix \<Rightarrow> nat \<Rightarrow> nat \<Rightarrow> Vector \<times> Vector \<times> SimulationStep list \<Rightarrow> nat
      \<Rightarrow> Vector \<times> Vector \<times> SimulationStep list" where
  "simulationStep P_baseline P_habit days sampleRate st t =
     (case st of (v_base, v_habit, tline) \<Rightarrow>
        let tline' = (if t mod sampleRate = 0 \<or> t = days
                   then tline @ [\<lparr>day = t,
                               baselineExpectedValue = calculateExpectedValue v_base,
                               habitExpectedValue = calculateExpectedValue v_habit,
                               baselineDist = v_base,
                               habitDist = v_habit\<rparr>]
                   else tline)
        in if t < days
           then (multiplyVectorMatrix v_base P_baseline, multiplyVectorMatrix v_habit P_habit, tline')
           else (v_base, v_habit, tline'))"

text \<open>
  \<open>runSimulation\<close>. The start vector is five zeros with a one written at \<open>initialState\<close>, a
  state index \<open>0..4\<close>; a write at a larger index would extend the JavaScript array and is
  outside the embedding. The horizon \<open>years\<close> is a whole number of years. An absent
  \<open>customMatrix\<close> is \<open>None\<close>.
\<close>

definition runSimulation :: "SimulationConfig \<Rightarrow> Matrix option \<Rightarrow> SimulationResult" where
  "runSimulation config customMatrix =
     (let days = years config * 365;
          P_baseline = createBaselineMatrix;
          P_habit = (case customMatrix of
                       Some cm \<Rightarrow> cloneMatrix cm
                     | None \<Rightarrow> applyMicroHabit P_baseline (impactFactor config));
          startVector = (replicate STATES_COUNT 0)[initialState config := 1];
          sampleRate = (if days > 7000 then 60 else if days > 2000 then 30 else 7);
          (v_base, v_habit, tline) =
             foldl (simulationStep P_baseline P_habit days sampleRate)
               (startVector, startVector, []) [0..<days + 1];
          mt = calculateMixingTime P_habit;
          gap = estimateSpectralGap mt;
          steady = calculateSteadyState P_habit;
          probImprovement = ((v_habit ! 4 - v_base ! 4) / max (v_base ! 4) 0.0001) * 100
      in \<lparr>timeline = tline,
          baselineFinalDist = v_base,
          habitFinalDist = v_habit,
          baselineMatrix = P_baseline,
          habitMatrix = P_habit,
          mixingTime = mt,
          spectralGap = gap,
          probabilityImprovement = probImprovement,
          steadyState = steady\<rparr>)"

section \<open>Path dependence\<close>

record PathConfig =
  effort :: real
  risk :: real
  isAbsorbing :: bool

record PathResult =
  matrix :: Matrix
  finalDist :: Vector
  expectedStepsToAbsorb :: "real option"
  absorptionProbabilities :: "Vector option"

text \<open>The row pushed by \<open>generateParametricMatrix\<close> for state \<open>i\<close>.\<close>

definition parametricRow :: "PathConfig \<Rightarrow> Matrix \<Rightarrow> nat \<Rightarrow> Vector" where
  "parametricRow config base i =
     (if isAbsorbing config \<and> i = STATES_COUNT - 1 then [0, 0, 0, 0, 1]
      else
        let row0 = base ! i;
            row1 = (if i < STATES_COUNT - 1
                    then let shift = effort config * row0 ! i * 0.8;
                             r = row0[i := row0 ! i - shift]
                         in r[i + 1 := r ! (i + 1) + shift]
                    else row0);
            riskFactor = risk config * 0.3;
            row2 = (if i < STATES_COUNT - 2
                    then let r = row1[i + 2 := row1 ! (i + 2) + riskFactor];
                             r' = r[i := max 0 (r ! i - riskFactor / 2)]
                         in r'[i + 1 := max 0 (r' ! (i + 1) - riskFactor / 2)]
                    else row1);
            row3 = (if i > 0
                    then let r = row2[i - 1 := row2 ! (i - 1) + riskFactor]
                         in r[i := max 0 (r ! i - riskFactor)]
                    else row2)
        in normalizeRow row3)"

definition generateParametricMatrix :: "PathConfig \<Rightarrow> Matrix" where
  "generateParametricMatrix config =
     (let base = createBaselineMatrix in map (parametricRow config base) [0..<STATES_COUNT])"

text \<open>\<open>fundamentalSystem\<close> is the matrix \<open>A = I - Q\<close> of \<open>calculateTimeToAbsorption\<close>.\<close>

definition fundamentalSystem :: "Matrix \<Rightarrow> Matrix" where
  "fundamentalSystem m =
     (let transientCount = 4;
          Q = map (\<lambda>i. take transientCount (m ! i)) [0..<transientCount]
      in map (\<lambda>i. map (\<lambda>j. (if i = j then 1 else 0) - Q ! i ! j) [0..<transientCount])
           [0..<transientCount])"

definition calculateTimeToAbsorption :: "Matrix \<Rightarrow> real option" where
  "calculateTimeToAbsorption m =
     (if m ! 4 ! 4 < 0.99 then None
      else let ones = replicate 4 1;
               t = solveLinearSystem (fundamentalSystem m) ones
           in Some (t ! 0))"

definition runPathSimulation :: "PathConfig \<Rightarrow> PathResult" where
  "runPathSimulation config =
     (let m = generateParametricMatrix config;
          expectedSteps = calculateTimeToAbsorption m;
          fd = (if isAbsorbing config
                then foldl (\<lambda>v i. multiplyVectorMatrix v m) [1, 0, 0, 0, 0] [0..<500]
                else calculateSteadyState m)
      in \<lparr>matrix = m,
          finalDist = fd,
          expectedStepsToAbsorb = expectedSteps,
          absorptionProbabilities = None\<rparr>)"

section \<open>Capital dynamics\<close>

text \<open>
  \<open>Math.pow\<close> on reals: an integer exponent is a repeated product (a negative one its
  reciprocal), any other exponent is the real power.
\<close>

definition Math_pow :: "real \<Rightarrow> real \<Rightarrow> real" where
  "Math_pow x y =
     (if y = of_int \<lfloor>y\<rfloor>
      then (if 0 \<le> y then x ^ nat \<lfloor>y\<rfloor> else 1 / x ^ nat (- \<lfloor>y\<rfloor>))
      else x powr y)"

datatype EquilibriumType = Stable | Unstable

record Equilibrium =
  k :: real
  type :: EquilibriumType

record WealthConfig =
  A :: real
  s :: real
  H :: real
  gamma :: real
  delta :: real
  sigma :: real
  initialK :: real
  pushMagnitude :: real
  pushTime :: nat

text \<open>
  \<open>nextK\<close>. The Gaussian draw \<open>z\<close> of the Box-Muller transform is an argument: \<open>None\<close> is
  a call with \<open>withNoise = false\<close>, \<open>Some z\<close> a call with \<open>withNoise = true\<close> that drew \<open>z\<close>.
\<close>

definition nextK :: "real \<Rightarrow> WealthConfig \<Rightarrow> real option \<Rightarrow> real" where
  "nextK x config noise =
     (let production = s config * A config *
                   (Math_pow x (gamma config) /
                      (Math_pow (H config) (gamma config) + Math_pow x (gamma config)));
          depreciation = delta config * x;
          k_next = x - depreciation + production;
          k_noisy = (case noise of None \<Rightarrow> k_next | Some z \<Rightarrow> k_next + z * sigma config)
      in max 0 k_noisy)"

text \<open>The local function \<open>netGrowth\<close> of \<open>findEquilibria\<close>: production minus depreciation.\<close>

definition netGrowth :: "WealthConfig \<Rightarrow> real \<Rightarrow> real" where
  "netGrowth config x =
     (let production = s config * A config *
                   (Math_pow x (gamma config) /
                      (Math_pow (H config) (gamma config) + Math_pow x (gamma config)))
      in production - delta config * x)"

definition maxSearchK :: real where
  "maxSearchK = 50"

definition step :: real where
  "step = 0.1"

text \<open>The bisection loop of \<open>findEquilibria\<close>, with the number of passes left.\<close>

fun bisect :: "WealthConfig \<Rightarrow> nat \<Rightarrow> real \<Rightarrow> real \<Rightarrow> real \<times> real" where
  "bisect config 0 low high = (low, high)"
| "bisect config (Suc iters) low high =
     (let mid = (low + high) / 2
      in if netGrowth config mid * netGrowth config low < 0
         then bisect config iters low mid
         else bisect config iters mid high)"

definition refineRoot :: "WealthConfig \<Rightarrow> real \<Rightarrow> Equilibrium" where
  "refineRoot config x =
     (let (low, high) = bisect config 20 (x - step) x;
          rootK = (low + high) / 2;
          isStable = (netGrowth config (rootK - 0.01) > 0 \<and> netGrowth config (rootK + 0.01) < 0)
      in \<lparr>k = rootK, type = (if isStable then Stable else Unstable)\<rparr>)"

text \<open>The scan loop of \<open>findEquilibria\<close> from the sample point \<open>x\<close> on.\<close>

function scanLoop :: "WealthConfig \<Rightarrow> real \<Rightarrow> real \<Rightarrow> Equilibrium list \<Rightarrow> Equilibrium list" where
  "scanLoop config x prevSign equilibria =
     (if x \<le> maxSearchK
      then if sgn (netGrowth config x) \<noteq> prevSign
           then scanLoop config (x + step) (sgn (netGrowth config x))
                  (equilibria @ [refineRoot config x])
           else scanLoop config (x + step) prevSign equilibria
      else equilibria)"
  by pat_completeness auto
termination
  by (relation "measure (\<lambda>(config, x, prevSign, equilibria). nat \<lfloor>(maxSearchK - x) * 10 + 1\<rfloor>)")
     (auto simp: maxSearchK_def step_def, linarith+)

definition findEquilibria :: "WealthConfig \<Rightarrow> Equilibrium list" where
  "findEquilibria config =
     scanLoop config 0.1 (sgn (netGrowth config 0.01)) [\<lparr>k = 0, type = Stable\<rparr>]"

section \<open>The vocabulary of the properties\<close>

subsection \<open>Stochastic vectors and matrices\<close>

text \<open>
  The invariants of the data model: a probability vector has nonnegative entries that sum
  to 1; a transition matrix over \<open>n\<close> states has \<open>n\<close> rows, each a probability vector of
  length \<open>n\<close>.
\<close>

definition prob_vector :: "Vector \<Rightarrow> bool" where
  "prob_vector v \<longleftrightarrow> (\<forall>x\<in>set v. 0 \<le> x) \<and> sum_list v = 1"

definition row_stochastic :: "nat \<Rightarrow> Matrix \<Rightarrow> bool" where
  "row_stochastic n P \<longleftrightarrow> length P = n \<and> (\<forall>row\<in>set P. length row = n \<and> prob_vector row)"

subsection \<open>Iterated distributions and sample chains\<close>

text \<open>
  The distribution after \<open>t\<close> steps from the one-hot vector at state 0, and the L1 change
  between the distributions after \<open>t - 1\<close> and \<open>t\<close> steps.
\<close>

definition distAt :: "Matrix \<Rightarrow> nat \<Rightarrow> Vector" where
  "distAt P t = ((\<lambda>v. multiplyVectorMatrix v P) ^^ t) [1, 0, 0, 0, 0]"

definition changeAt :: "Matrix \<Rightarrow> nat \<Rightarrow> real" where
  "changeAt P t = (\<Sum>i<5. \<bar>distAt P t ! i - distAt P (t - 1) ! i\<bar>)"

definition identity5 :: Matrix where
  "identity5 =
     [[1, 0, 0, 0, 0],
      [0, 1, 0, 0, 0],
      [0, 0, 1, 0, 0],
      [0, 0, 0, 1, 0],
      [0, 0, 0, 0, 1]]"

text \<open>A chain that moves from state 0 to state 1 and stays there, and one that swaps 0 and 1.\<close>

definition shiftOnce :: Matrix where
  "shiftOnce =
     [[0, 1, 0, 0, 0],
      [0, 1, 0, 0, 0],
      [0, 0, 1, 0, 0],
      [0, 0, 0, 1, 0],
      [0, 0, 0, 0, 1]]"

definition swap01 :: Matrix where
  "swap01 =
     [[0, 1, 0, 0, 0],
      [1, 0, 0, 0, 0],
      [0, 0, 1, 0, 0],
      [0, 0, 0, 1, 0],
      [0, 0, 0, 0, 1]]"

subsection \<open>The edited row\<close>

text \<open>The clamp \<open>Math.max(0, Math.min(1, v))\<close>.\<close>

definition clamp01 :: "real \<Rightarrow> real" where
  "clamp01 v = max 0 (min 1 v)"

text \<open>
  The row that an edit of cell \<open>c\<close> to the value \<open>v\<close> produces from a row that sums to 1:
  unchanged when the cell already holds the clamped value; otherwise the cell holds the clamped
  value and every other cell is scaled by \<open>(1 - new) / (1 - old)\<close> when \<open>1 - old\<close>
  exceeds \<open>0.0001\<close>, and is \<open>(1 - new) / (length - 1)\<close> when it does not.
\<close>

definition editedRow :: "Vector \<Rightarrow> nat \<Rightarrow> real \<Rightarrow> Vector" where
  "editedRow row c v =
     (if row ! c = clamp01 v then row
      else map (\<lambda>j. if j = c then clamp01 v
                     else if 1 - row ! c > 1 / 10000
                          then row ! j * ((1 - clamp01 v) / (1 - row ! c))
                          else (1 - clamp01 v) / real (length row - 1))
             [0..<length row])"

text \<open>A transition matrix whose first row leaves exactly \<open>0.0001\<close> outside its first cell.\<close>

definition nearlyAbsorbing :: Matrix where
  "nearlyAbsorbing =
     [[9999 / 10000, 1 / 10000, 0, 0, 0],
      [0, 1, 0, 0, 0],
      [0, 0, 1, 0, 0],
      [0, 0, 0, 1, 0],
      [0, 0, 0, 0, 1]]"

subsection \<open>Default configuration and a weight on the transient states\<close>

text \<open>The default wealth configuration of \<open>App.tsx\<close>.\<close>

definition defaultWealthConfig :: WealthConfig where
  "defaultWealthConfig =
     \<lparr>A = 8, s = 0.2, H = 10, gamma = 3, delta = 0.1, sigma = 0.5,
      initialK = 8, pushMagnitude = 0, pushTime = 20\<rparr>"

text \<open>A weight on the transient states that one step of the chain shrinks by at most \<open>49/50\<close>.\<close>

definition transientWeight :: "Vector \<Rightarrow> real" where
  "transientWeight v = 100 * v ! 0 + 88 * v ! 1 + 70 * v ! 2 + 47 * v ! 3"

subsection \<open>Linear systems and runs of the elimination\<close>

text \<open>
  An augmented matrix for \<open>n\<close> unknowns has \<open>n\<close> rows of \<open>n + 1\<close> cells; \<open>x\<close> satisfies it
  when every row's equation holds; it is reduced up to column \<open>i\<close> when each of its first
  \<open>i\<close> columns is the matching unit vector.
\<close>

definition wellShaped :: "nat \<Rightarrow> Matrix \<Rightarrow> bool" where
  "wellShaped n M \<longleftrightarrow> length M = n \<and> (\<forall>row\<in>set M. length row = n + 1)"

definition satisfies :: "nat \<Rightarrow> Matrix \<Rightarrow> Vector \<Rightarrow> bool" where
  "satisfies n M x \<longleftrightarrow> (\<forall>r<n. (\<Sum>j<n. M ! r ! j * x ! j) = M ! r ! n)"

definition reducedUpTo :: "nat \<Rightarrow> nat \<Rightarrow> Matrix \<Rightarrow> bool" where
  "reducedUpTo n i M \<longleftrightarrow> (\<forall>c<i. \<forall>r<n. M ! r ! c = (if r = c then 1 else 0))"

text \<open>
  \<open>noPivotSkipped n M cols\<close>: running the outer loop of \<open>solveLinearSystem\<close> on \<open>M\<close> for
  the columns \<open>cols\<close> never takes the \<open>continue\<close> branch.
\<close>

fun noPivotSkipped :: "nat \<Rightarrow> Matrix \<Rightarrow> nat list \<Rightarrow> bool" where
  "noPivotSkipped n M [] = True"
| "noPivotSkipped n M (i # cols) =
     (\<not> \<bar>swapRows M i (findPivot M n i) ! i ! i\<bar> < pivotTolerance
      \<and> noPivotSkipped n (gaussStep n M i) cols)"

text \<open>
  \<open>steadyStateNoSkip P\<close>: the elimination that \<open>calculateSteadyState P\<close> runs takes the
  \<open>continue\<close> branch for no column.
\<close>

definition steadyStateNoSkip :: "Matrix \<Rightarrow> bool" where
  "steadyStateNoSkip P \<longleftrightarrow>
     noPivotSkipped (length P)
       (augment (steadyStateSystem P) ((replicate (length P) 0)[length P - 1 := 1]))
       [0..<length P]"

text \<open>
  A transition matrix with two entries of \<open>2^-35\<close>: state 0 moves to 1, states 1 and 3
  swap, state 2 stays and leaks into state 3 with that probability, state 4 moves to 0 and
  into 2 with that probability. Every entry is a binary fraction.
\<close>

definition tinyLeak :: Matrix where
  "tinyLeak =
     [[0, 1, 0, 0, 0],
      [0, 0, 0, 1, 0],
      [0, 0, 1 - 1 / 2 ^ 35, 1 / 2 ^ 35, 0],
      [0, 1, 0, 0, 0],
      [1 - 1 / 2 ^ 35, 0, 1 / 2 ^ 35, 0, 0]]"

subsection \<open>A weighted mass on the transient states\<close>

text \<open>
  \<open>weightedMass w v\<close> weighs the probability that \<open>v\<close> leaves on the four transient states
  with the weights \<open>w\<close>.
\<close>

definition weightedMass :: "Vector \<Rightarrow> Vector \<Rightarrow> real" where
  "weightedMass w v = (\<Sum>i<4. w ! i * v ! i)"

subsection \<open>Systems bounded below\<close>

text \<open>
  \<open>boundedBelow n A mu\<close>: the matrix \<open>A\<close> shrinks no vector by more than the factor \<open>mu\<close>
  in the maximum norm. \<open>combines n i A M\<close>: every row of \<open>A\<close> is a combination of the rows
  of \<open>M\<close> in which the coefficients of the rows from \<open>i\<close> on have absolute sum at most 1.
\<close>

definition boundedBelow :: "nat \<Rightarrow> Matrix \<Rightarrow> real \<Rightarrow> bool" where
  "boundedBelow n A' mu \<longleftrightarrow>
     (\<forall>x :: nat \<Rightarrow> real. \<forall>i<n. \<exists>r<n. mu * \<bar>x i\<bar> \<le> \<bar>\<Sum>j<n. A' ! r ! j * x j\<bar>)"

definition combines :: "nat \<Rightarrow> nat \<Rightarrow> Matrix \<Rightarrow> Matrix \<Rightarrow> bool" where
  "combines n i A' M \<longleftrightarrow>
     (\<forall>r<n. \<exists>c :: nat \<Rightarrow> real.
        (\<forall>j<n. A' ! r ! j = (\<Sum>k<n. c k * M ! k ! j)) \<and> (\<Sum>k = i..<n. \<bar>c k\<bar>) \<le> 1)"

section \<open>The linear algebra kernel\<close>

lemma upt_0_5: "[0..<5] = [0, 1, 2, 3, 4]"
  by (simp add: upt_rec)

lemma foldl_add_sum_list:
  "foldl (\<lambda>acc i. acc + f i) a xs = (a::real) + sum_list (map f xs)"
  by (induction xs arbitrary: a) simp_all

lemma foldl_plus_sum_list: "foldl (+) (a::real) xs = a + sum_list xs"
  by (induction xs arbitrary: a) simp_all

lemma sum_list_lessThan: "sum_list xs = (\<Sum>i<length xs. (xs ! i :: real))"
  by (simp add: sum_list_sum_nth atLeast0LessThan)

lemma length_multiplyVectorMatrix [simp]: "length (multiplyVectorMatrix v m) = length v"
  by (simp add: multiplyVectorMatrix_def)

lemma multiplyVectorMatrix_nth:
  "j < length v \<Longrightarrow> multiplyVectorMatrix v m ! j = (\<Sum>i<length v. v ! i * m ! i ! j)"
  by (simp add: multiplyVectorMatrix_def foldl_add_sum_list interv_sum_list_conv_sum_set_nat
      atLeast0LessThan)

lemma row_stochastic_row_sum:
  assumes "row_stochastic n P" and "i < n"
  shows "(\<Sum>j<n. P ! i ! j) = 1"
proof -
  from assms have "P ! i \<in> set P" by (simp add: row_stochastic_def)
  with assms have "length (P ! i) = n" "sum_list (P ! i) = 1"
    by (auto simp: row_stochastic_def prob_vector_def)
  then show ?thesis by (simp add: sum_list_lessThan)
qed

lemma row_stochastic_nonneg:
  assumes "row_stochastic n P" and "i < n" and "j < n"
  shows "0 \<le> P ! i ! j"
proof -
  from assms have "P ! i \<in> set P" by (simp add: row_stochastic_def)
  with assms have "length (P ! i) = n" "\<forall>x\<in>set (P ! i). 0 \<le> x"
    by (auto simp: row_stochastic_def prob_vector_def)
  with \<open>j < n\<close> show ?thesis by simp
qed

lemma multiplyVectorMatrix_sum:
  assumes "row_stochastic (length v) P"
  shows "sum_list (multiplyVectorMatrix v P) = sum_list v"
proof -
  let ?n = "length v"
  have "sum_list (multiplyVectorMatrix v P) = (\<Sum>j<?n. \<Sum>i<?n. v ! i * P ! i ! j)"
    by (simp add: sum_list_lessThan multiplyVectorMatrix_nth)
  also have "\<dots> = (\<Sum>i<?n. \<Sum>j<?n. v ! i * P ! i ! j)"
    by (rule sum.swap)
  also have "\<dots> = (\<Sum>i<?n. v ! i * (\<Sum>j<?n. P ! i ! j))"
    by (simp add: sum_distrib_left)
  also have "\<dots> = (\<Sum>i<?n. v ! i)"
    by (simp add: row_stochastic_row_sum [OF assms])
  finally show ?thesis by (simp add: sum_list_lessThan)
qed

lemma multiplyVectorMatrix_nonneg:
  assumes "\<forall>x\<in>set v. 0 \<le> x" and "row_stochastic (length v) P"
  shows "\<forall>x\<in>set (multiplyVectorMatrix v P). 0 \<le> x"
proof -
  have "0 \<le> multiplyVectorMatrix v P ! j" if "j < length v" for j
  proof -
    have "0 \<le> v ! i * P ! i ! j" if "i < length v" for i
      using that assms(1) row_stochastic_nonneg [OF assms(2) that \<open>j < length v\<close>] by simp
    then show ?thesis
      using that by (auto simp: multiplyVectorMatrix_nth intro!: sum_nonneg)
  qed
  then show ?thesis by (auto simp: in_set_conv_nth)
qed

lemma multiplyVectorMatrix_prob:
  assumes "prob_vector v" and "row_stochastic (length v) P"
  shows "prob_vector (multiplyVectorMatrix v P)"
  using assms multiplyVectorMatrix_sum [OF assms(2)] multiplyVectorMatrix_nonneg [of v P]
  by (simp add: prob_vector_def)

lemma length_normalizeRow [simp]: "length (normalizeRow row) = length row"
  by (simp add: normalizeRow_def Let_def)

lemma normalizeRow_prob:
  assumes "\<forall>x\<in>set row. 0 \<le> x" and "0 < sum_list row"
  shows "prob_vector (normalizeRow row)"
proof -
  have "sum_list (map (\<lambda>v. v / c) xs) = sum_list xs / c" for c :: real and xs
    by (induction xs) (simp_all add: add_divide_distrib)
  with assms show ?thesis
    by (auto simp: normalizeRow_def prob_vector_def foldl_plus_sum_list)
qed

lemma prob_normalize5:
  assumes "0 \<le> a" "0 \<le> b" "0 \<le> c" "0 \<le> d" "0 \<le> e"
    and "0 < a \<or> 0 < b \<or> 0 < c \<or> 0 < d \<or> 0 < e"
  shows "prob_vector (normalizeRow [a, b, c, d, e])"
proof -
  from assms have "0 < a + b + c + d + e" by linarith
  with assms(1-5) show ?thesis
    by (intro normalizeRow_prob) (simp_all add: add.assoc)
qed

text \<open>
  Claim C8. For every probability vector \<open>v\<close> and every row-stochastic matrix \<open>P\<close> of the
  same dimension, \<open>multiplyVectorMatrix v P\<close> (the spec's \<open>advanceDistribution\<close>) is the
  row vector \<open>v \<cdot> P\<close>: entry \<open>j\<close> is the sum of \<open>v[i] * P[i][j]\<close> over \<open>i\<close>; its entries
  are nonnegative and sum to exactly 1.
\<close>

theorem multiplyVectorMatrix_stochastic:
  assumes "prob_vector v" and "row_stochastic (length v) P"
  shows "length (multiplyVectorMatrix v P) = length v
       \<and> (\<forall>j<length v. multiplyVectorMatrix v P ! j = (\<Sum>i<length v. v ! i * P ! i ! j))
       \<and> sum_list (multiplyVectorMatrix v P) = 1
       \<and> (\<forall>x\<in>set (multiplyVectorMatrix v P). 0 \<le> x)"
  using multiplyVectorMatrix_prob [OF assms]
  by (simp add: multiplyVectorMatrix_nth prob_vector_def)

theorem multiplyVectorMatrix_stochastic_witness:
  "prob_vector [1 / 2, 1 / 2] \<and> row_stochastic (length [1 / 2, 1 / 2 :: real]) [[1 / 4, 3 / 4], [1, 0]]
   \<and> sum_list (multiplyVectorMatrix [1 / 2, 1 / 2] [[1 / 4, 3 / 4], [1, 0]]) = 1
   \<and> multiplyVectorMatrix [1 / 2, 1 / 2] [[1 / 4, 3 / 4], [1, 0]] = [5 / 8, 3 / 8]"
proof -
  have v: "prob_vector [1 / 2, 1 / 2]"
    by (simp add: prob_vector_def)
  have P: "row_stochastic (length [1 / 2, 1 / 2 :: real]) [[1 / 4, 3 / 4], [1, 0]]"
    by (simp add: row_stochastic_def prob_vector_def)
  have "multiplyVectorMatrix [1 / 2, 1 / 2] [[1 / 4, 3 / 4], [1, 0]] = [5 / 8, 3 / 8]"
    by (simp add: multiplyVectorMatrix_def upt_rec)
  with v P multiplyVectorMatrix_stochastic [OF v P] show ?thesis
    by simp
qed

section \<open>The matrices the engine builds\<close>

lemma createBaselineMatrix_rows:
  "createBaselineMatrix =
     [[9 / 10, 9 / 100, 1 / 100, 0, 0],
      [3 / 20, 7 / 10, 7 / 50, 1 / 100, 0],
      [1 / 100, 1 / 5, 3 / 5, 9 / 50, 1 / 100],
      [0, 1 / 20, 1 / 5, 3 / 5, 3 / 20],
      [0, 0, 1 / 10, 2 / 5, 1 / 2]]"
  by (simp add: createBaselineMatrix_def normalizeRow_def)

lemma createBaselineMatrix_stochastic: "row_stochastic 5 createBaselineMatrix"
  by (simp add: createBaselineMatrix_rows row_stochastic_def prob_vector_def)

lemma applyMicroHabit_rows:
  "applyMicroHabit createBaselineMatrix f =
     map normalizeRow
       [[max 0 (9 / 10 - f), 9 / 100 + f, 1 / 100, 0, 0],
        [max 0 (3 / 20 - f), 7 / 10, 7 / 50 + f, 1 / 100, 0],
        [1 / 100, max 0 (1 / 5 - f), 3 / 5, 9 / 50 + f, 1 / 100],
        [0, 1 / 20, max 0 (1 / 5 - f), 3 / 5, 3 / 20 + f],
        [0, 0, 1 / 10, max 0 (2 / 5 - f), 1 / 2 + f]]"
  by (simp add: applyMicroHabit_def createBaselineMatrix_rows cloneMatrix_def STATES_COUNT_def
      upt_0_5 microHabitStep_def [abs_def] setCell_def eval_nat_numeral)

lemma applyMicroHabit_stochastic:
  assumes "0 \<le> f"
  shows "row_stochastic 5 (applyMicroHabit createBaselineMatrix f)"
  unfolding applyMicroHabit_rows row_stochastic_def using assms
  by (auto intro!: prob_normalize5)

lemma generateParametricMatrix_rows:
  "generateParametricMatrix \<lparr>effort = e, risk = r, isAbsorbing = a\<rparr> =
      [normalizeRow
        [max 0 (9 / 10 - 18 * e / 25 - r * 3 / 20),
         max 0 (9 / 100 + 18 * e / 25 - r * 3 / 20), 1 / 100 + r * 3 / 10, 0, 0],
       normalizeRow
        [3 / 20 + r * 3 / 10,
         max 0 (max 0 (7 / 10 - 14 * e / 25 - r * 3 / 20) - r * 3 / 10),
         max 0 (7 / 50 + 14 * e / 25 - r * 3 / 20), 1 / 100 + r * 3 / 10, 0],
       normalizeRow
        [1 / 100, 1 / 5 + r * 3 / 10,
         max 0 (max 0 (3 / 5 - 12 * e / 25 - r * 3 / 20) - r * 3 / 10),
         max 0 (9 / 50 + 12 * e / 25 - r * 3 / 20), 1 / 100 + r * 3 / 10],
       normalizeRow
        [0, 1 / 20, 1 / 5 + r * 3 / 10,
         max 0 (3 / 5 - 12 * e / 25 - r * 3 / 10), 3 / 20 + 12 * e / 25],
       if a then [0, 0, 0, 0, 1]
       else normalizeRow
        [0, 0, 1 / 10, 2 / 5 + r * 3 / 10, max 0 (1 / 2 - r * 3 / 10)]]"
  by (simp add: generateParametricMatrix_def createBaselineMatrix_rows STATES_COUNT_def upt_0_5
      parametricRow_def [abs_def] eval_nat_numeral Let_def)

lemma affine_pos: "0 < c \<Longrightarrow> 0 \<le> r \<Longrightarrow> 0 < c + r * 3 / (10::real)"
  by (simp add: add_pos_nonneg)

lemma generateParametricMatrix_stochastic:
  assumes "0 \<le> e" and "0 \<le> r"
  shows "row_stochastic 5 (generateParametricMatrix \<lparr>effort = e, risk = r, isAbsorbing = a\<rparr>)"
proof -
  note pos = affine_pos [OF _ assms(2)]
  note nn = less_imp_le [OF affine_pos [OF _ assms(2)]]
  have r0: "prob_vector (normalizeRow [max 0 (9 / 10 - 18 * e / 25 - r * 3 / 20),
         max 0 (9 / 100 + 18 * e / 25 - r * 3 / 20), 1 / 100 + r * 3 / 10, 0, 0])"
    by (rule prob_normalize5) (simp_all add: pos nn)
  have r1: "prob_vector (normalizeRow [3 / 20 + r * 3 / 10,
         max 0 (max 0 (7 / 10 - 14 * e / 25 - r * 3 / 20) - r * 3 / 10),
         max 0 (7 / 50 + 14 * e / 25 - r * 3 / 20), 1 / 100 + r * 3 / 10, 0])"
    by (rule prob_normalize5) (simp_all add: pos nn)
  have r2: "prob_vector (normalizeRow [1 / 100, 1 / 5 + r * 3 / 10,
         max 0 (max 0 (3 / 5 - 12 * e / 25 - r * 3 / 20) - r * 3 / 10),
         max 0 (9 / 50 + 12 * e / 25 - r * 3 / 20), 1 / 100 + r * 3 / 10])"
    by (rule prob_normalize5) (simp_all add: pos nn)
  have r3: "prob_vector (normalizeRow [0, 1 / 20, 1 / 5 + r * 3 / 10,
         max 0 (3 / 5 - 12 * e / 25 - r * 3 / 10), 3 / 20 + 12 * e / 25])"
    using assms(1) by (intro prob_normalize5) (simp_all add: pos nn)
  have r4: "prob_vector (normalizeRow [0, 0, 1 / 10, 2 / 5 + r * 3 / 10, max 0 (1 / 2 - r * 3 / 10)])"
    by (rule prob_normalize5) (simp_all add: pos nn)
  have r4': "prob_vector [0, 0, 0, 0, 1]"
    by (simp add: prob_vector_def)
  show ?thesis
    unfolding generateParametricMatrix_rows row_stochastic_def using r0 r1 r2 r3 r4 r4'
    by simp
qed

text \<open>
  Claim C7. The baseline matrix, the micro-habit matrix built from it for every
  \<open>impactFactor \<ge> 0\<close>, and the parametric path matrix for every \<open>effort\<close> and \<open>risk\<close> in
  \<open>[0, 1]\<close>, with or without the absorbing flag, are row-stochastic: five rows of five
  nonnegative entries, every row summing to 1.
\<close>

theorem engine_matrices_row_stochastic:
  assumes "0 \<le> f"
    and "0 \<le> effort config" and "effort config \<le> 1"
    and "0 \<le> risk config" and "risk config \<le> 1"
  shows "row_stochastic 5 createBaselineMatrix
       \<and> row_stochastic 5 (applyMicroHabit createBaselineMatrix f)
       \<and> row_stochastic 5 (generateParametricMatrix config)"
proof -
  obtain e r a where c: "config = \<lparr>effort = e, risk = r, isAbsorbing = a\<rparr>"
    by (cases config) auto
  with assms have "0 \<le> e" "0 \<le> r" by simp_all
  then have "row_stochastic 5 (generateParametricMatrix config)"
    unfolding c by (rule generateParametricMatrix_stochastic)
  with createBaselineMatrix_stochastic applyMicroHabit_stochastic [OF assms(1)]
  show ?thesis by simp
qed

theorem engine_matrices_row_stochastic_witness:
  "(0::real) \<le> 3 / 200
   \<and> 0 \<le> effort \<lparr>effort = 3 / 10, risk = 1 / 10, isAbsorbing = True\<rparr>
   \<and> effort \<lparr>effort = 3 / 10, risk = 1 / 10, isAbsorbing = True\<rparr> \<le> 1
   \<and> 0 \<le> risk \<lparr>effort = 3 / 10, risk = 1 / 10, isAbsorbing = True\<rparr>
   \<and> risk \<lparr>effort = 3 / 10, risk = 1 / 10, isAbsorbing = True\<rparr> \<le> 1
   \<and> row_stochastic 5 createBaselineMatrix
   \<and> row_stochastic 5 (applyMicroHabit createBaselineMatrix (3 / 200))
   \<and> row_stochastic 5 (generateParametricMatrix \<lparr>effort = 3 / 10, risk = 1 / 10, isAbsorbing = True\<rparr>)"
  using engine_matrices_row_stochastic
    [of "3 / 200" "\<lparr>effort = 3 / 10, risk = 1 / 10, isAbsorbing = True\<rparr>"]
  by simp

section \<open>Mixing time and spectral gap\<close>

declare mixingLoop.simps [simp del]

lemma l1Change_sum: "l1Change d d' = (\<Sum>i<5. \<bar>d ! i - d' ! i\<bar>)"
  by (simp add: l1Change_def STATES_COUNT_def foldl_add_sum_list
      interv_sum_list_conv_sum_set_nat atLeast0LessThan)

lemma distAt_Suc: "distAt P (Suc t) = multiplyVectorMatrix (distAt P t) P"
  by (simp add: distAt_def)

text \<open>
  The loop entered at step \<open>t\<close> with the distribution after \<open>t - 1\<close> steps returns the first
  step from \<open>t\<close> on whose change is below the threshold, and \<open>maxSteps\<close> when there is none
  below \<open>maxSteps\<close>.
\<close>

lemma mixingLoop_spec:
  assumes "1 \<le> t" and "d = distAt P (t - 1)" and "d' = d" and "t \<le> maxSteps"
  shows "t \<le> mixingLoop P t d d' \<and> mixingLoop P t d d' \<le> maxSteps
       \<and> (mixingLoop P t d d' < maxSteps \<longrightarrow> changeAt P (mixingLoop P t d d') < threshold)
       \<and> (\<forall>u. t \<le> u \<and> u < mixingLoop P t d d' \<longrightarrow> \<not> changeAt P u < threshold)"
  using assms
proof (induction P t d d' rule: mixingLoop.induct)
  case (1 P t d d')
  show ?case
  proof (cases "t < maxSteps")
    case False
    then have "mixingLoop P t d d' = maxSteps"
      by (subst mixingLoop.simps) simp
    with False "1.prems" show ?thesis by simp
  next
    case True
    let ?d = "multiplyVectorMatrix d P"
    from "1.prems" have next_d: "?d = distAt P t"
      using distAt_Suc [of P "t - 1"] by simp
    have chg: "l1Change ?d d' = changeAt P t"
      unfolding l1Change_sum changeAt_def next_d using "1.prems" by simp
    show ?thesis
    proof (cases "changeAt P t < threshold")
      case conv: True
      with True chg have "mixingLoop P t d d' = t"
        by (subst mixingLoop.simps) simp
      with True conv show ?thesis by simp
    next
      case nconv: False
      from True nconv chg have eq: "mixingLoop P t d d' = mixingLoop P (t + 1) ?d ?d"
        by (subst mixingLoop.simps) simp
      have IH: "t + 1 \<le> mixingLoop P (t + 1) ?d ?d \<and> mixingLoop P (t + 1) ?d ?d \<le> maxSteps
       \<and> (mixingLoop P (t + 1) ?d ?d < maxSteps
            \<longrightarrow> changeAt P (mixingLoop P (t + 1) ?d ?d) < threshold)
       \<and> (\<forall>u. t + 1 \<le> u \<and> u < mixingLoop P (t + 1) ?d ?d \<longrightarrow> \<not> changeAt P u < threshold)"
        using "1.IH" True nconv chg next_d by simp
      have "\<not> changeAt P u < threshold" if "t \<le> u" "u < mixingLoop P (t + 1) ?d ?d" for u
      proof (cases "u = t")
        case True
        with nconv show ?thesis by simp
      next
        case False
        with that IH show ?thesis by simp
      qed
      with IH show ?thesis unfolding eq by auto
    qed
  qed
qed

lemma calculateMixingTime_bounds:
  "1 \<le> calculateMixingTime P \<and> calculateMixingTime P \<le> 5000"
  using mixingLoop_spec [of 1 "[1, 0, 0, 0, 0]" P "[1, 0, 0, 0, 0]"]
  by (simp add: calculateMixingTime_def distAt_def maxSteps_def)

lemma distAt_shiftOnce: "distAt shiftOnce (Suc t) = [0, 1, 0, 0, 0]"
  by (induction t)
     (simp_all add: distAt_def multiplyVectorMatrix_def shiftOnce_def upt_0_5)

lemma distAt_swap01:
  "distAt swap01 t = (if even t then [1, 0, 0, 0, 0] else [0, 1, 0, 0, 0])"
  by (induction t)
     (simp_all add: distAt_def multiplyVectorMatrix_def swap01_def upt_0_5)

lemma sum_lessThan_5: "(\<Sum>i<(5::nat). f i) = f 0 + f 1 + f 2 + f 3 + (f 4 :: real)"
  by (simp add: lessThan_nat_numeral lessThan_Suc eval_nat_numeral)

lemma changeAt_swap01: "1 \<le> t \<Longrightarrow> changeAt swap01 t = 2"
  by (cases t) (simp_all add: changeAt_def distAt_swap01 sum_lessThan_5)

text \<open>
  Claim C9. \<open>calculateMixingTime\<close> is a total function (its loop has a termination
  proof); its result lies in \<open>[1, 5000]\<close>; a result below 5000 is a step whose L1 change
  is below \<open>1e-5\<close>; and no step from 1 up to the result, the result excluded, has a change
  below \<open>1e-5\<close>. So the result is the first such step when there is one below 5000, and
  the bound 5000 otherwise.
\<close>

theorem calculateMixingTime_first_step:
  "1 \<le> calculateMixingTime P \<and> calculateMixingTime P \<le> 5000
   \<and> (calculateMixingTime P < 5000 \<longrightarrow> changeAt P (calculateMixingTime P) < 1 / 10 ^ 5)
   \<and> (\<forall>u. 1 \<le> u \<and> u < calculateMixingTime P \<longrightarrow> \<not> changeAt P u < 1 / 10 ^ 5)"
  using mixingLoop_spec [of 1 "[1, 0, 0, 0, 0]" P "[1, 0, 0, 0, 0]"]
  by (simp add: calculateMixingTime_def distAt_def maxSteps_def threshold_def)

text \<open>
  The chain \<open>shiftOnce\<close> changes at step 1 and is still at step 2, so its mixing time is 2;
  the chain \<open>swap01\<close> changes by 2 at every step, so its mixing time is the bound.
\<close>

theorem calculateMixingTime_first_step_witness:
  "calculateMixingTime shiftOnce = 2
   \<and> changeAt shiftOnce 2 < 1 / 10 ^ 5 \<and> \<not> changeAt shiftOnce 1 < 1 / 10 ^ 5
   \<and> calculateMixingTime swap01 = 5000"
proof -
  have c1: "changeAt shiftOnce 1 = 2"
    by (simp add: changeAt_def distAt_shiftOnce [of 0, simplified] sum_lessThan_5)
       (simp add: distAt_def)
  have c2: "changeAt shiftOnce 2 = 0"
    using distAt_shiftOnce [of 0] distAt_shiftOnce [of 1]
    by (simp add: changeAt_def sum_lessThan_5 eval_nat_numeral)
  have "calculateMixingTime shiftOnce \<le> 2"
  proof (rule ccontr)
    assume "\<not> calculateMixingTime shiftOnce \<le> 2"
    then have "1 \<le> (2::nat) \<and> 2 < calculateMixingTime shiftOnce" by simp
    with calculateMixingTime_first_step [of shiftOnce] have "\<not> changeAt shiftOnce 2 < 1 / 10 ^ 5"
      by blast
    with c2 show False by simp
  qed
  moreover have "calculateMixingTime shiftOnce \<noteq> 1"
  proof
    assume "calculateMixingTime shiftOnce = 1"
    with calculateMixingTime_first_step [of shiftOnce] have "changeAt shiftOnce 1 < 1 / 10 ^ 5"
      by simp
    with c1 show False by simp
  qed
  ultimately have s: "calculateMixingTime shiftOnce = 2"
    using calculateMixingTime_first_step [of shiftOnce] by linarith
  have "\<not> calculateMixingTime swap01 < 5000"
  proof
    assume lt: "calculateMixingTime swap01 < 5000"
    with calculateMixingTime_first_step [of swap01]
    have "changeAt swap01 (calculateMixingTime swap01) < 1 / 10 ^ 5"
      and "1 \<le> calculateMixingTime swap01" by simp_all
    then show False by (simp add: changeAt_swap01)
  qed
  with calculateMixingTime_first_step [of swap01] have "calculateMixingTime swap01 = 5000"
    by linarith
  with s c1 c2 show ?thesis by simp
qed

lemma calculateMixingTime_identity5: "calculateMixingTime identity5 = 1"
  unfolding calculateMixingTime_def
  by (subst mixingLoop.simps)
     (simp add: maxSteps_def threshold_def l1Change_sum multiplyVectorMatrix_def upt_0_5
        identity5_def sum_lessThan_5)

lemma runSimulation_mixing_fields:
  "mixingTime (runSimulation config cm) = calculateMixingTime (habitMatrix (runSimulation config cm))"
  "spectralGap (runSimulation config cm) = estimateSpectralGap (mixingTime (runSimulation config cm))"
  "habitMatrix (runSimulation config cm) =
     (case cm of Some c \<Rightarrow> cloneMatrix c
      | None \<Rightarrow> applyMicroHabit createBaselineMatrix (impactFactor config))"
  by (simp_all add: runSimulation_def Let_def split: prod.split)

text \<open>
  Claim C10. The mixing time is never 0, so \<open>estimateSpectralGap\<close> never takes its
  zero branch on a value that \<open>calculateMixingTime\<close> returned: the spectral gap reported by
  \<open>runSimulation\<close> is the reciprocal of the reported mixing time and lies in \<open>(0, 1]\<close>. On
  the identity matrix the mixing time is 1 and the reported spectral gap is 1.
\<close>

theorem spectralGap_reciprocal_of_mixingTime:
  "calculateMixingTime P \<noteq> 0
   \<and> estimateSpectralGap (calculateMixingTime P) = 1 / real (calculateMixingTime P)
   \<and> mixingTime (runSimulation config cm) = calculateMixingTime (habitMatrix (runSimulation config cm))
   \<and> 1 \<le> mixingTime (runSimulation config cm)
   \<and> spectralGap (runSimulation config cm) = 1 / real (mixingTime (runSimulation config cm))
   \<and> 0 < spectralGap (runSimulation config cm)
   \<and> spectralGap (runSimulation config cm) \<le> 1
   \<and> calculateMixingTime identity5 = 1
   \<and> mixingTime (runSimulation config (Some identity5)) = 1
   \<and> spectralGap (runSimulation config (Some identity5)) = 1"
proof -
  have pos: "1 \<le> calculateMixingTime Q" for Q
    using calculateMixingTime_bounds [of Q] by simp
  have gap: "estimateSpectralGap (calculateMixingTime Q) = 1 / real (calculateMixingTime Q)" for Q
    using pos [of Q] by (simp add: estimateSpectralGap_def)
  have id: "habitMatrix (runSimulation config (Some identity5)) = identity5"
    by (simp add: runSimulation_mixing_fields cloneMatrix_def)
  show ?thesis
    using pos [of P] pos [of "habitMatrix (runSimulation config cm)"]
    by (simp add: runSimulation_mixing_fields(1,2) gap id calculateMixingTime_identity5
        estimateSpectralGap_def)
qed

section \<open>Zero perturbation\<close>

lemma applyMicroHabit_zero: "applyMicroHabit createBaselineMatrix 0 = createBaselineMatrix"
  unfolding applyMicroHabit_rows by (simp add: createBaselineMatrix_rows normalizeRow_def)

lemma simulationStep_same:
  "\<exists>v1 tline1. simulationStep P P days sr (v, v, tline) t = (v1, v1, tline1)
     \<and> (tline1 = tline \<or> tline1 = tline @ [\<lparr>day = t,
            baselineExpectedValue = calculateExpectedValue v,
            habitExpectedValue = calculateExpectedValue v,
            baselineDist = v, habitDist = v\<rparr>])"
  by (simp add: simulationStep_def Let_def)

lemma simulationStep_mono:
  "\<exists>a' b' tline1. simulationStep Pb Ph days sr (a, b, tline) t = (a', b', tline1)
     \<and> set tline \<subseteq> set tline1"
  by (simp add: simulationStep_def Let_def subset_insertI)

lemma simulation_fold_mono:
  "set tline \<subseteq> set (snd (snd (foldl (simulationStep Pb Ph days sr) (a, b, tline) ts)))"
proof (induction ts arbitrary: a b tline)
  case Nil
  show ?case by simp
next
  case (Cons t ts)
  obtain a' b' tline1 where st: "simulationStep Pb Ph days sr (a, b, tline) t = (a', b', tline1)"
    and sub: "set tline \<subseteq> set tline1"
    using simulationStep_mono [of Pb Ph days sr a b tline t] by blast
  have "set tline1 \<subseteq> set (snd (snd (foldl (simulationStep Pb Ph days sr) (a', b', tline1) ts)))"
    by (rule Cons.IH)
  with sub show ?case
    unfolding foldl_Cons st by (rule subset_trans)
qed

lemma simulation_fold_same:
  assumes "foldl (simulationStep P P days sr) (v, v, tline) ts = (vb, vh, tline')"
    and "\<forall>st\<in>set tline. baselineDist st = habitDist st
            \<and> baselineExpectedValue st = habitExpectedValue st"
  shows "vb = vh
       \<and> (\<forall>st\<in>set tline'. baselineDist st = habitDist st
            \<and> baselineExpectedValue st = habitExpectedValue st)"
  using assms
proof (induction ts arbitrary: v tline)
  case Nil
  then show ?case by auto
next
  case (Cons t ts)
  obtain v1 tline1 where step: "simulationStep P P days sr (v, v, tline) t = (v1, v1, tline1)"
    and shape: "tline1 = tline \<or> tline1 = tline @ [\<lparr>day = t,
            baselineExpectedValue = calculateExpectedValue v,
            habitExpectedValue = calculateExpectedValue v,
            baselineDist = v, habitDist = v\<rparr>]"
    using simulationStep_same [of P days sr v tline t] by blast
  from shape Cons.prems(2)
  have good: "\<forall>st\<in>set tline1. baselineDist st = habitDist st
            \<and> baselineExpectedValue st = habitExpectedValue st"
    by auto
  from Cons.prems(1) step
  have "foldl (simulationStep P P days sr) (v1, v1, tline1) ts = (vb, vh, tline')"
    by simp
  from Cons.IH [OF this good] show ?case .
qed

lemma runSimulation_timeline_fields:
  "timeline (runSimulation config cm) = snd (snd (foldl
       (simulationStep createBaselineMatrix (habitMatrix (runSimulation config cm))
          (years config * 365)
          (if years config * 365 > 7000 then 60 else if years config * 365 > 2000 then 30 else 7))
       ((replicate STATES_COUNT 0)[initialState config := 1],
        (replicate STATES_COUNT 0)[initialState config := 1], [])
       [0..<years config * 365 + 1]))"
  "baselineFinalDist (runSimulation config cm) = fst (foldl
       (simulationStep createBaselineMatrix (habitMatrix (runSimulation config cm))
          (years config * 365)
          (if years config * 365 > 7000 then 60 else if years config * 365 > 2000 then 30 else 7))
       ((replicate STATES_COUNT 0)[initialState config := 1],
        (replicate STATES_COUNT 0)[initialState config := 1], [])
       [0..<years config * 365 + 1])"
  "habitFinalDist (runSimulation config cm) = fst (snd (foldl
       (simulationStep createBaselineMatrix (habitMatrix (runSimulation config cm))
          (years config * 365)
          (if years config * 365 > 7000 then 60 else if years config * 365 > 2000 then 30 else 7))
       ((replicate STATES_COUNT 0)[initialState config := 1],
        (replicate STATES_COUNT 0)[initialState config := 1], [])
       [0..<years config * 365 + 1]))"
  "baselineMatrix (runSimulation config cm) = createBaselineMatrix"
  by (simp_all add: runSimulation_def Let_def split: prod.split)

lemma runSimulation_zero_impact:
  assumes "impactFactor config = 0"
  shows "habitMatrix (runSimulation config None) = baselineMatrix (runSimulation config None)
       \<and> (\<forall>st\<in>set (timeline (runSimulation config None)).
             baselineDist st = habitDist st \<and> baselineExpectedValue st = habitExpectedValue st)
       \<and> baselineFinalDist (runSimulation config None) = habitFinalDist (runSimulation config None)"
proof -
  have hm: "habitMatrix (runSimulation config None) = createBaselineMatrix"
    using assms by (simp add: runSimulation_mixing_fields applyMicroHabit_zero)
  let ?days = "years config * 365"
  let ?sr = "if ?days > 7000 then 60 else if ?days > 2000 then 30 else (7::nat)"
  let ?v = "(replicate STATES_COUNT (0::real))[initialState config := 1]"
  obtain vb vh tl' where f: "foldl (simulationStep createBaselineMatrix createBaselineMatrix ?days ?sr)
       (?v, ?v, []) [0..<?days + 1] = (vb, vh, tl')"
    using prod_cases3 by blast
  from simulation_fold_same [OF f] show ?thesis
    unfolding runSimulation_timeline_fields hm f by simp
qed

lemma runSimulation_first_sample:
  "\<lparr>day = 0,
     baselineExpectedValue = calculateExpectedValue ((replicate STATES_COUNT 0)[initialState config := 1]),
     habitExpectedValue = calculateExpectedValue ((replicate STATES_COUNT 0)[initialState config := 1]),
     baselineDist = (replicate STATES_COUNT 0)[initialState config := 1],
     habitDist = (replicate STATES_COUNT 0)[initialState config := 1]\<rparr>
   \<in> set (timeline (runSimulation config None))"
proof -
  define days where "days = years config * 365"
  define sr :: nat where "sr = (if days > 7000 then 60 else if days > 2000 then 30 else 7)"
  define v where "v = (replicate STATES_COUNT (0::real))[initialState config := 1]"
  define P where "P = habitMatrix (runSimulation config None)"
  define smp where "smp = \<lparr>day = 0, baselineExpectedValue = calculateExpectedValue v,
     habitExpectedValue = calculateExpectedValue v, baselineDist = v, habitDist = v\<rparr>"
  define rest where "rest = [1..<days + 1]"
  have upt: "[0..<days + 1] = 0 # rest"
    by (simp add: upt_conv_Cons rest_def)
  have "\<exists>v1 v2. simulationStep createBaselineMatrix P days sr (v, v, []) 0 = (v1, v2, [smp])"
    by (simp add: simulationStep_def Let_def smp_def)
  then obtain v1 v2
    where step: "simulationStep createBaselineMatrix P days sr (v, v, []) 0 = (v1, v2, [smp])"
    by blast
  have tl: "timeline (runSimulation config None)
      = snd (snd (foldl (simulationStep createBaselineMatrix P days sr) (v, v, []) [0..<days + 1]))"
    unfolding runSimulation_timeline_fields days_def sr_def v_def P_def ..
  have "set [smp] \<subseteq> set (snd (snd (foldl (simulationStep createBaselineMatrix P days sr) (v1, v2, [smp]) rest)))"
    by (rule simulation_fold_mono)
  then have "smp \<in> set (timeline (runSimulation config None))"
    unfolding tl upt foldl_Cons step by simp
  then show ?thesis
    unfolding smp_def v_def .
qed


text \<open>
  Claim C5. \<open>runSimulation\<close> with \<open>years = 1\<close>, \<open>impactFactor = 0\<close>, \<open>initialState = 0\<close>
  and no override matrix builds a habit matrix equal to the baseline matrix; every sampled
  step of the timeline has equal baseline and habit distributions and equal expected
  values; and the two final distributions agree.
\<close>

theorem runSimulation_zero_perturbation:
  "habitMatrix (runSimulation \<lparr>years = 1, impactFactor = 0, initialState = 0\<rparr> None)
     = baselineMatrix (runSimulation \<lparr>years = 1, impactFactor = 0, initialState = 0\<rparr> None)
   \<and> (\<forall>st\<in>set (timeline (runSimulation \<lparr>years = 1, impactFactor = 0, initialState = 0\<rparr> None)).
         baselineDist st = habitDist st \<and> baselineExpectedValue st = habitExpectedValue st)
   \<and> baselineFinalDist (runSimulation \<lparr>years = 1, impactFactor = 0, initialState = 0\<rparr> None)
     = habitFinalDist (runSimulation \<lparr>years = 1, impactFactor = 0, initialState = 0\<rparr> None)"
  by (rule runSimulation_zero_impact) simp

text \<open>The timeline is not empty: its first sample is the start vector at day 0.\<close>

theorem runSimulation_zero_perturbation_witness:
  "\<lparr>day = 0, baselineExpectedValue = 0, habitExpectedValue = 0,
     baselineDist = [1, 0, 0, 0, 0], habitDist = [1, 0, 0, 0, 0]\<rparr>
     \<in> set (timeline (runSimulation \<lparr>years = 1, impactFactor = 0, initialState = 0\<rparr> None))
   \<and> baselineDist \<lparr>day = 0, baselineExpectedValue = 0, habitExpectedValue = 0,
        baselineDist = [1, 0, 0, 0, 0], habitDist = [1, 0, 0, 0, 0]\<rparr>
     = habitDist \<lparr>day = 0, baselineExpectedValue = 0, habitExpectedValue = 0,
        baselineDist = [1, 0, 0, 0, 0], habitDist = [1, 0, 0, 0, 0]\<rparr>"
proof -
  have ev: "calculateExpectedValue [1, 0, 0, 0, 0] = 0"
    by (simp add: calculateExpectedValue_def upt_0_5)
  have "\<lparr>day = 0, baselineExpectedValue = 0, habitExpectedValue = 0,
     baselineDist = [1, 0, 0, 0, 0], habitDist = [1, 0, 0, 0, 0]\<rparr>
     \<in> set (timeline (runSimulation \<lparr>years = 1, impactFactor = 0, initialState = 0\<rparr> None))"
    using runSimulation_first_sample [of "\<lparr>years = 1, impactFactor = 0, initialState = 0\<rparr>"]
    by (simp add: STATES_COUNT_def eval_nat_numeral ev)
  with runSimulation_zero_perturbation show ?thesis
    by blast
qed

section \<open>Editing one probability\<close>

lemma foldl_update_others:
  "m \<le> length row \<Longrightarrow>
   foldl (\<lambda>r j. if j \<noteq> c then r[j := g (r ! j)] else r) row [0..<m]
     = map (\<lambda>j. if j < m \<and> j \<noteq> c then g (row ! j) else row ! j) [0..<length row]"
proof (induction m)
  case 0
  show ?case by (simp add: map_nth)
next
  case (Suc m)
  then have IH: "foldl (\<lambda>r j. if j \<noteq> c then r[j := g (r ! j)] else r) row [0..<m]
     = map (\<lambda>j. if j < m \<and> j \<noteq> c then g (row ! j) else row ! j) [0..<length row]"
    and m: "m < length row" by simp_all
  show ?case
    unfolding upt_Suc_append [OF le0] foldl_append IH
    using m by (auto intro!: nth_equalityI simp: nth_list_update less_Suc_eq)
qed

lemma sum_list_update_others:
  assumes "c < length row"
  shows "sum_list (map (\<lambda>j. if j \<noteq> c then g (row ! j) else x) [0..<length row])
       = x + (\<Sum>j\<in>{..<length row} - {c}. g (row ! j))"
proof -
  have "sum_list (map (\<lambda>j. if j \<noteq> c then g (row ! j) else x) [0..<length row])
      = (\<Sum>j<length row. if j \<noteq> c then g (row ! j) else x)"
    by (simp add: interv_sum_list_conv_sum_set_nat atLeast0LessThan)
  also have "\<dots> = (if c \<noteq> c then g (row ! c) else x)
       + (\<Sum>j\<in>{..<length row} - {c}. if j \<noteq> c then g (row ! j) else x)"
    using assms by (intro sum.remove) simp_all
  also have "\<dots> = x + (\<Sum>j\<in>{..<length row} - {c}. g (row ! j))"
    by (auto intro!: sum.cong)
  finally show ?thesis .
qed

lemma sum_list_remove:
  assumes "c < length row"
  shows "sum_list row = row ! c + (\<Sum>j\<in>{..<length row} - {c}. (row ! j :: real))"
  unfolding sum_list_lessThan using assms by (intro sum.remove) simp_all

lemma normalizeRow_sum_one: "sum_list row = 1 \<Longrightarrow> normalizeRow row = row"
  by (simp add: normalizeRow_def foldl_plus_sum_list)

lemma editedRow_sum:
  assumes "c < length row" and "2 \<le> length row" and "sum_list row = 1"
  shows "sum_list (editedRow row c v) = 1"
proof (cases "row ! c = clamp01 v")
  case True
  with assms show ?thesis by (simp add: editedRow_def)
next
  case False
  show ?thesis
  proof (cases "1 - row ! c > 1 / 10000")
    case True
    have rest: "(\<Sum>j\<in>{..<length row} - {c}. row ! j) = 1 - row ! c"
      using sum_list_remove [OF assms(1)] assms(3) by simp
    have "editedRow row c v = map (\<lambda>j. if j \<noteq> c then row ! j * ((1 - clamp01 v) / (1 - row ! c)) else clamp01 v) [0..<length row]"
      using False True by (simp add: editedRow_def)
    then have "sum_list (editedRow row c v)
       = clamp01 v + (\<Sum>j\<in>{..<length row} - {c}. row ! j * ((1 - clamp01 v) / (1 - row ! c)))"
      using sum_list_update_others [OF assms(1), of "\<lambda>x. x * ((1 - clamp01 v) / (1 - row ! c))"] by simp
    also have "\<dots> = clamp01 v + (1 - row ! c) * ((1 - clamp01 v) / (1 - row ! c))"
      unfolding sum_distrib_right [symmetric] rest ..
    also have "\<dots> = 1" using True by simp
    finally show ?thesis .
  next
    case nprop: False
    have card: "card ({..<length row} - {c}) = length row - 1"
      using assms(1) by simp
    have "editedRow row c v = map (\<lambda>j. if j \<noteq> c then (1 - clamp01 v) / real (length row - 1) else clamp01 v) [0..<length row]"
      using False nprop by (simp add: editedRow_def)
    then have "sum_list (editedRow row c v)
       = clamp01 v + (\<Sum>j\<in>{..<length row} - {c}. (1 - clamp01 v) / real (length row - 1))"
      using sum_list_update_others [OF assms(1), of "\<lambda>x. (1 - clamp01 v) / real (length row - 1)"] by simp
    also have "\<dots> = clamp01 v + real (length row - 1) * ((1 - clamp01 v) / real (length row - 1))"
      by (simp add: card)
    also have "\<dots> = 1" using assms(2) by simp
    finally show ?thesis .
  qed
qed

lemma updateMatrixProbability_editedRow:
  assumes "i < length P" and "c < length (P ! i)" and "2 \<le> length (P ! i)" and "sum_list (P ! i) = 1"
  shows "updateMatrixProbability P i c v = Inr (P[i := editedRow (P ! i) c v])"
proof (cases "P ! i ! c = clamp01 v")
  case True
  with assms show ?thesis
    by (simp add: updateMatrixProbability_def cloneMatrix_def Let_def editedRow_def clamp01_def)
next
  case False
  let ?row = "P ! i"
  let ?row1 = "?row[c := clamp01 v]"
  have r1: "?row1 ! j = (if j = c then clamp01 v else ?row ! j)" if "j < length ?row" for j
    using that by (simp add: nth_list_update)
  have pre: "(if 1 - ?row ! c > 1 / 10000
        then foldl (\<lambda>r j. if j \<noteq> c then r[j := r ! j * ((1 - clamp01 v) / (1 - ?row ! c))] else r)
               ?row1 [0..<length ?row1]
        else if length ?row1 - 1 > 0
             then foldl (\<lambda>r j. if j \<noteq> c then r[j := (1 - clamp01 v) / real (length ?row1 - 1)] else r)
               ?row1 [0..<length ?row1]
             else ?row1) = editedRow ?row c v"
  proof -
    have len: "length ?row1 = length ?row" by simp
    have f1: "foldl (\<lambda>r j. if j \<noteq> c then r[j := r ! j * K] else r) ?row1 [0..<length ?row1]
        = map (\<lambda>j. if j = c then clamp01 v else ?row ! j * K) [0..<length ?row]" for K
      using foldl_update_others [of "length ?row1" ?row1 c "\<lambda>x. x * K"] assms(2)
      by (auto simp: nth_list_update)
    have f2: "foldl (\<lambda>r j. if j \<noteq> c then r[j := K] else r) ?row1 [0..<length ?row1]
        = map (\<lambda>j. if j = c then clamp01 v else K) [0..<length ?row]" for K
      using foldl_update_others [of "length ?row1" ?row1 c "\<lambda>x. K"] assms(2)
      by (auto simp: nth_list_update)
    have pos: "length ?row1 - 1 > 0" using assms(3) by simp
    show ?thesis
      unfolding f1 f2 if_P [OF pos] using False
      by (simp add: editedRow_def)
  qed
  have nrm: "normalizeRow (editedRow ?row c v) = editedRow ?row c v"
    by (rule normalizeRow_sum_one) (rule editedRow_sum [OF assms(2-4)])
  have "updateMatrixProbability P i c v = Inr (P[i := normalizeRow
     (if 1 - ?row ! c > 1 / 10000
        then foldl (\<lambda>r j. if j \<noteq> c then r[j := r ! j * ((1 - clamp01 v) / (1 - ?row ! c))] else r)
               ?row1 [0..<length ?row1]
        else if length ?row1 - 1 > 0
             then foldl (\<lambda>r j. if j \<noteq> c then r[j := (1 - clamp01 v) / real (length ?row1 - 1)] else r)
               ?row1 [0..<length ?row1]
             else ?row1)])"
    unfolding clamp01_def using False [unfolded clamp01_def] assms(1,2)
    by (simp add: updateMatrixProbability_def cloneMatrix_def Let_def cong: if_cong)
  then show ?thesis
    unfolding pre nrm .
qed

text \<open>
  Claim C3, amended. For every matrix \<open>P\<close>, row index \<open>i\<close> and column index \<open>c\<close> inside
  it, where row \<open>i\<close> has at least two cells and sums to 1, and for every value \<open>v\<close>:
  \<open>updateMatrixProbability\<close> returns a matrix of the same shape whose rows other than \<open>i\<close>
  are the rows of \<open>P\<close>, whose row \<open>i\<close> sums to 1 and holds the clamped value in cell \<open>c\<close>;
  the other cells of row \<open>i\<close> are unchanged when the cell already held the clamped value,
  scaled proportionally when the previous remainder \<open>1 - P[i][c]\<close> exceeds \<open>0.0001\<close>,
  and equal shares of the new remainder otherwise.
\<close>

theorem updateMatrixProbability_row_sum:
  assumes "i < length P" and "c < length (P ! i)" and "2 \<le> length (P ! i)"
    and "sum_list (P ! i) = 1"
  shows "\<exists>P'. updateMatrixProbability P i c v = Inr P' \<and> length P' = length P
     \<and> (\<forall>r<length P. r \<noteq> i \<longrightarrow> P' ! r = P ! r)
     \<and> length (P' ! i) = length (P ! i) \<and> sum_list (P' ! i) = 1
     \<and> P' ! i ! c = max 0 (min 1 v)
     \<and> (\<forall>j<length (P ! i). j \<noteq> c \<longrightarrow> P' ! i ! j =
          (if P ! i ! c = max 0 (min 1 v) then P ! i ! j
           else if 1 - P ! i ! c > 1 / 10000
                then P ! i ! j * ((1 - max 0 (min 1 v)) / (1 - P ! i ! c))
                else (1 - max 0 (min 1 v)) / real (length (P ! i) - 1)))"
proof -
  let ?P' = "P[i := editedRow (P ! i) c v]"
  have row: "?P' ! i = editedRow (P ! i) c v"
    using assms(1) by simp
  have len: "length (editedRow (P ! i) c v) = length (P ! i)"
    by (simp add: editedRow_def)
  have at_c: "editedRow (P ! i) c v ! c = max 0 (min 1 v)"
    using assms(2) by (simp add: editedRow_def clamp01_def)
  have others: "editedRow (P ! i) c v ! j =
          (if P ! i ! c = max 0 (min 1 v) then P ! i ! j
           else if 1 - P ! i ! c > 1 / 10000
                then P ! i ! j * ((1 - max 0 (min 1 v)) / (1 - P ! i ! c))
                else (1 - max 0 (min 1 v)) / real (length (P ! i) - 1))"
    if "j < length (P ! i)" "j \<noteq> c" for j
    using that by (simp add: editedRow_def clamp01_def)
  show ?thesis
    using updateMatrixProbability_editedRow [OF assms, of v] editedRow_sum [OF assms(2-4), of v]
      len at_c others
    by (intro exI [of _ ?P']) (simp add: row)
qed

theorem updateMatrixProbability_row_sum_witness:
  "0 < length createBaselineMatrix \<and> 0 < length (createBaselineMatrix ! 0)
   \<and> 2 \<le> length (createBaselineMatrix ! 0) \<and> sum_list (createBaselineMatrix ! 0) = 1
   \<and> (\<exists>P'. updateMatrixProbability createBaselineMatrix 0 0 (1 / 2) = Inr P'
         \<and> sum_list (P' ! 0) = 1 \<and> P' ! 0 ! 0 = 1 / 2 \<and> P' ! 0 ! 1 = 9 / 20
         \<and> P' ! 1 = createBaselineMatrix ! 1)"
proof -
  have h: "0 < length createBaselineMatrix" "0 < length (createBaselineMatrix ! 0)"
    "2 \<le> length (createBaselineMatrix ! 0)" "sum_list (createBaselineMatrix ! 0) = 1"
    by (simp_all add: createBaselineMatrix_rows)
  from updateMatrixProbability_row_sum [OF h, of "1 / 2"] h show ?thesis
    by (auto simp: createBaselineMatrix_rows)
qed

text \<open>
  The claim as stated fails: on a row whose previous remainder is \<open>0.0001\<close> (not zero) the
  other cells are not rescaled proportionally; cell 2 becomes \<open>1/8\<close>, not \<open>0\<close>.
\<close>

theorem updateMatrixProbability_proportional_counterexample:
  "updateMatrixProbability nearlyAbsorbing 0 0 (1 / 2)
     = Inr (nearlyAbsorbing[0 := [1 / 2, 1 / 8, 1 / 8, 1 / 8, 1 / 8]])
   \<and> sum_list (nearlyAbsorbing ! 0) = 1
   \<and> 1 - nearlyAbsorbing ! 0 ! 0 \<noteq> 0
   \<and> (1 / 8 :: real) \<noteq> nearlyAbsorbing ! 0 ! 2 * ((1 - 1 / 2) / (1 - nearlyAbsorbing ! 0 ! 0))"
proof -
  have "updateMatrixProbability nearlyAbsorbing 0 0 (1 / 2)
      = Inr (nearlyAbsorbing[0 := editedRow (nearlyAbsorbing ! 0) 0 (1 / 2)])"
    by (rule updateMatrixProbability_editedRow) (simp_all add: nearlyAbsorbing_def)
  moreover have "editedRow (nearlyAbsorbing ! 0) 0 (1 / 2) = [1 / 2, 1 / 8, 1 / 8, 1 / 8, 1 / 8]"
    by (simp add: editedRow_def nearlyAbsorbing_def clamp01_def upt_0_5)
  ultimately show ?thesis
    by (simp add: nearlyAbsorbing_def)
qed

section \<open>Equilibria of the default wealth configuration\<close>

declare scanLoop.simps [simp del]

lemma Math_pow_3: "Math_pow x 3 = x ^ 3"
  by (simp add: Math_pow_def)

lemma netGrowth_default:
  "netGrowth defaultWealthConfig x = 8 / 5 * (x ^ 3 / (1000 + x ^ 3)) - x / 10"
  by (simp add: netGrowth_def defaultWealthConfig_def Math_pow_3)

lemma cubic_pos:
  assumes "0 < (x::real)"
  shows "16 * x ^ 2 < 1000 + x ^ 3"
proof -
  have "x ^ 3 - 16 * x ^ 2 + 1000 = (x - 32 / 3) ^ 2 * (x + 16 / 3) + 10616 / 27"
    by (simp add: power2_eq_square power3_eq_cube field_simps)
  moreover have "0 \<le> (x - 32 / 3) ^ 2 * (x + 16 / 3)"
    using assms by (intro mult_nonneg_nonneg) simp_all
  ultimately show ?thesis by linarith
qed

lemma netGrowth_default_neg:
  assumes "0 < x"
  shows "netGrowth defaultWealthConfig x < 0"
proof -
  have pos: "0 < 1000 + x ^ 3" using assms by (simp add: add_pos_pos)
  have "16 * x ^ 2 * x < (1000 + x ^ 3) * x"
    using cubic_pos [OF assms] assms by (rule mult_strict_right_mono)
  then have "16 * x ^ 3 < x * (1000 + x ^ 3)"
    by (simp add: power3_eq_cube power2_eq_square algebra_simps)
  then have "16 * (x ^ 3 / (1000 + x ^ 3)) < x"
    using pos by (simp add: pos_divide_less_eq)
  then show ?thesis
    unfolding netGrowth_default by linarith
qed

lemma scanLoop_default_no_root:
  assumes "0 < x"
  shows "scanLoop defaultWealthConfig x (- 1) eqs = eqs"
  using assms
proof (induction defaultWealthConfig x "- 1 :: real" eqs rule: scanLoop.induct)
  case (1 x eqs)
  have sg: "sgn (netGrowth defaultWealthConfig x) = - 1"
    using netGrowth_default_neg [OF "1.prems"] by simp
  show ?case
  proof (cases "x \<le> maxSearchK")
    case True
    have "0 < x + step" using "1.prems" by (simp add: step_def)
    with "1.hyps"(2) True sg have "scanLoop defaultWealthConfig (x + step) (- 1) eqs = eqs"
      by simp
    with True sg show ?thesis
      by (subst scanLoop.simps) simp
  next
    case False
    then show ?thesis by (subst scanLoop.simps) simp
  qed
qed

lemma findEquilibria_default_value:
  "findEquilibria defaultWealthConfig = [\<lparr>k = 0, type = Stable\<rparr>]"
proof -
  have "sgn (netGrowth defaultWealthConfig 0.01) = - 1"
    using netGrowth_default_neg [of "0.01"] by simp
  then show ?thesis
    by (simp add: findEquilibria_def scanLoop_default_no_root)
qed

lemma nextK_netGrowth: "nextK x config None = max 0 (x + netGrowth config x)"
  by (simp add: nextK_def netGrowth_def Let_def)

lemma nextK_default_below:
  assumes "0 < x"
  shows "nextK x defaultWealthConfig None < x"
  using netGrowth_default_neg [OF assms] assms by (simp add: nextK_netGrowth)

lemma nextK_default_zero: "nextK 0 defaultWealthConfig None = 0"
  by (simp add: nextK_netGrowth netGrowth_default)

text \<open>
  Claim C1, amended. For the default wealth configuration \<open>A = 8\<close>, \<open>s = 0.2\<close>, \<open>H = 10\<close>,
  \<open>gamma = 3\<close>, \<open>delta = 0.1\<close>, \<open>findEquilibria\<close> returns exactly one equilibrium, \<open>k = 0\<close>
  tagged Stable: net growth is negative at every positive capital level, so the scan meets
  no sign change and there is no interior root. The list misses nothing: the noise-free
  capital map fixes 0 and maps every positive capital level strictly below itself.
\<close>

theorem findEquilibria_default_only_zero:
  "findEquilibria defaultWealthConfig = [\<lparr>k = 0, type = Stable\<rparr>]
   \<and> (\<forall>x. 0 < x \<longrightarrow> netGrowth defaultWealthConfig x < 0)
   \<and> nextK 0 defaultWealthConfig None = 0
   \<and> (\<forall>x. 0 < x \<longrightarrow> nextK x defaultWealthConfig None < x)"
  using findEquilibria_default_value netGrowth_default_neg nextK_default_zero nextK_default_below
  by simp

theorem findEquilibria_default_only_zero_witness:
  "(0::real) < 16 \<and> netGrowth defaultWealthConfig 16 = - 200 / 637
   \<and> netGrowth defaultWealthConfig 16 < 0
   \<and> nextK 16 defaultWealthConfig None = 9992 / 637
   \<and> nextK 16 defaultWealthConfig None < 16"
proof -
  have "netGrowth defaultWealthConfig 16 = - 200 / 637"
    by (simp add: netGrowth_default)
  moreover have "netGrowth defaultWealthConfig 16 < 0"
    using findEquilibria_default_only_zero by simp
  moreover have "nextK 16 defaultWealthConfig None = 9992 / 637"
    by (simp add: nextK_netGrowth netGrowth_default)
  moreover have "nextK 16 defaultWealthConfig None < 16"
    using findEquilibria_default_only_zero by simp
  ultimately show ?thesis by simp
qed

text \<open>The claim as stated fails: the list has one element, not three.\<close>

theorem findEquilibria_default_counterexample:
  "length (findEquilibria defaultWealthConfig) \<noteq> 3
   \<and> Unstable \<notin> type ` set (findEquilibria defaultWealthConfig)"
  by (simp add: findEquilibria_default_value)

section \<open>The long-run distribution of the absorbing chain\<close>

lemma foldl_const_funpow: "foldl (\<lambda>v i. f v) v xs = (f ^^ length xs) v"
  by (induction xs arbitrary: v) (simp_all add: funpow_swap1)

lemma runPathSimulation_fields:
  "matrix (runPathSimulation config) = generateParametricMatrix config"
  "expectedStepsToAbsorb (runPathSimulation config)
     = calculateTimeToAbsorption (generateParametricMatrix config)"
  "finalDist (runPathSimulation config)
     = (if isAbsorbing config then distAt (generateParametricMatrix config) 500
        else calculateSteadyState (generateParametricMatrix config))"
  by (simp_all add: runPathSimulation_def Let_def foldl_const_funpow distAt_def)

lemma distAt_prob:
  assumes "row_stochastic 5 P"
  shows "prob_vector (distAt P t) \<and> length (distAt P t) = 5"
proof (induction t)
  case 0
  show ?case by (simp add: distAt_def prob_vector_def)
next
  case (Suc t)
  then show ?case
    using multiplyVectorMatrix_prob [of "distAt P t" P] assms by (simp add: distAt_Suc)
qed

lemma length5_cases:
  assumes "length v = 5"
  obtains a b c d e where "v = [a, b, c, d, e]"
proof -
  from assms obtain a v1 where "v = a # v1" "length v1 = 4" by (cases v) auto
  moreover then obtain b v2 where "v1 = b # v2" "length v2 = 3" by (cases v1) auto
  moreover then obtain c v3 where "v2 = c # v3" "length v3 = 2" by (cases v2) auto
  moreover then obtain d v4 where "v3 = d # v4" "length v4 = 1" by (cases v3) auto
  moreover then obtain e where "v4 = [e]" by (cases v4) auto
  ultimately show ?thesis using that by simp
qed

lemma lockedBaseline_rows:
  "generateParametricMatrix \<lparr>effort = 0, risk = 0, isAbsorbing = True\<rparr> =
     [[9 / 10, 9 / 100, 1 / 100, 0, 0],
      [3 / 20, 7 / 10, 7 / 50, 1 / 100, 0],
      [1 / 100, 1 / 5, 3 / 5, 9 / 50, 1 / 100],
      [0, 1 / 20, 1 / 5, 3 / 5, 3 / 20],
      [0, 0, 0, 0, 1]]"
  by (simp add: generateParametricMatrix_rows normalizeRow_def)

lemma transientWeight_step:
  assumes "length v = 5" and "\<forall>x\<in>set v. 0 \<le> x"
  shows "49 / 50 * transientWeight v
       \<le> transientWeight (multiplyVectorMatrix v
            (generateParametricMatrix \<lparr>effort = 0, risk = 0, isAbsorbing = True\<rparr>))"
proof -
  from assms(1) obtain a b c d e where v: "v = [a, b, c, d, e]" by (rule length5_cases)
  with assms(2) have "0 \<le> a" "0 \<le> b" "0 \<le> c" "0 \<le> d" by simp_all
  then show ?thesis
    unfolding v lockedBaseline_rows
    by (simp add: transientWeight_def multiplyVectorMatrix_def upt_0_5)
qed

lemma transientWeight_distAt:
  "(49 / 50) ^ t * 100
     \<le> transientWeight (distAt (generateParametricMatrix \<lparr>effort = 0, risk = 0, isAbsorbing = True\<rparr>) t)"
proof (induction t)
  case 0
  show ?case by (simp add: distAt_def transientWeight_def)
next
  case (Suc t)
  let ?P = "generateParametricMatrix \<lparr>effort = 0, risk = 0, isAbsorbing = True\<rparr>"
  have rs: "row_stochastic 5 ?P"
    by (rule generateParametricMatrix_stochastic) simp_all
  have "prob_vector (distAt ?P t)" "length (distAt ?P t) = 5"
    using distAt_prob [OF rs, of t] by simp_all
  then have "49 / 50 * transientWeight (distAt ?P t) \<le> transientWeight (distAt ?P (Suc t))"
    unfolding distAt_Suc by (intro transientWeight_step) (simp_all add: prob_vector_def)
  moreover have "(49 / 50) ^ Suc t * 100 \<le> 49 / 50 * transientWeight (distAt ?P t)"
    using Suc.IH by simp
  ultimately show ?case by linarith
qed

lemma transientWeight_le:
  assumes "prob_vector v" and "length v = 5"
  shows "transientWeight v \<le> 100 * (1 - v ! 4)"
proof -
  from assms(2) obtain a b c d e where v: "v = [a, b, c, d, e]" by (rule length5_cases)
  with assms(1) have "0 \<le> a" "0 \<le> b" "0 \<le> c" "0 \<le> d" "a + b + c + d + e = 1"
    by (simp_all add: prob_vector_def)
  then show ?thesis
    unfolding v by (simp add: transientWeight_def)
qed

lemma pow_49_50_10: "(4::real) / 5 \<le> (49 / 50) ^ 10"
  by (simp add: power_divide)

lemma pow_4_5_10: "(1::real) / 10 < (4 / 5) ^ 10"
  by (simp add: power_divide)

lemma pow_49_50_500: "(1::real) / 10 ^ 5 < (49 / 50) ^ 500"
proof -
  have "(1::real) / 10 ^ 5 = (1 / 10) ^ 5"
    by (simp add: power_divide)
  also have "\<dots> < ((4 / 5) ^ 10) ^ 5"
    by (intro power_strict_mono pow_4_5_10) simp_all
  also have "\<dots> = ((4::real) / 5) ^ 50"
    by (simp add: power_mult [symmetric])
  also have "\<dots> \<le> ((49 / 50) ^ 10) ^ 50"
    by (intro power_mono pow_49_50_10) simp_all
  also have "\<dots> = ((49::real) / 50) ^ 500"
    by (simp add: power_mult [symmetric])
  finally show ?thesis .
qed

lemma finalDist_locked_baseline:
  "finalDist (runPathSimulation \<lparr>effort = 0, risk = 0, isAbsorbing = True\<rparr>) ! 4 < 1 - 1 / 10 ^ 5"
proof -
  let ?P = "generateParametricMatrix \<lparr>effort = 0, risk = 0, isAbsorbing = True\<rparr>"
  have rs: "row_stochastic 5 ?P"
    by (rule generateParametricMatrix_stochastic) simp_all
  have "100 * (1 / 10 ^ 5) < (49 / 50) ^ 500 * (100::real)"
    using pow_49_50_500 by simp
  also have "\<dots> \<le> transientWeight (distAt ?P 500)"
    by (rule transientWeight_distAt)
  also have "\<dots> \<le> 100 * (1 - distAt ?P 500 ! 4)"
    using distAt_prob [OF rs, of 500] by (intro transientWeight_le) simp_all
  finally have "1 / 10 ^ 5 < 1 - distAt ?P 500 ! 4"
    by simp
  then show ?thesis
    by (simp add: runPathSimulation_fields)
qed

lemma prob_vector_top_le_1:
  assumes "prob_vector v" and "length v = 5"
  shows "0 \<le> v ! 4 \<and> v ! 4 \<le> 1"
proof -
  from assms(2) obtain a b c d e where v: "v = [a, b, c, d, e]" by (rule length5_cases)
  with assms(1) have "0 \<le> a" "0 \<le> b" "0 \<le> c" "0 \<le> d" "0 \<le> e" "a + b + c + d + e = 1"
    by (simp_all add: prob_vector_def)
  then show ?thesis
    unfolding v by simp
qed

section \<open>Gaussian elimination without skipped pivots\<close>

lemma updRange_Suc:
  "updRange f lo (Suc hi) row =
     (if lo \<le> hi then (updRange f lo hi row)[hi := f hi (updRange f lo hi row ! hi)] else row)"
  by (simp add: updRange_def)

lemma length_updRange [simp]: "length (updRange f lo hi row) = length row"
  by (induction hi) (simp_all add: updRange_Suc, simp add: updRange_def)

lemma updRange_nth:
  "j < length row \<Longrightarrow>
   updRange f lo hi row ! j = (if lo \<le> j \<and> j < hi then f j (row ! j) else row ! j)"
proof (induction hi)
  case 0
  then show ?case by (simp add: updRange_def)
next
  case (Suc hi)
  then show ?case
    by (auto simp: updRange_Suc nth_list_update less_Suc_eq)
qed

lemma foldl_select_mem:
  "foldl (\<lambda>p j. if c j p then j else p) p0 xs \<in> insert p0 (set xs)"
  by (induction xs arbitrary: p0) (simp, force)

lemma findPivot_range:
  assumes "i < n"
  shows "i \<le> findPivot M n i \<and> findPivot M n i < n"
  using foldl_select_mem [of "\<lambda>j p. \<bar>M ! j ! i\<bar> > \<bar>M ! p ! i\<bar>" i "[i + 1..<n]"] assms
  by (auto simp: findPivot_def)

lemma eliminateRows_rows:
  assumes len: "length M = n" and i: "i < n"
  shows "length (eliminateRows n i M) = n"
    and "\<forall>r<n. eliminateRows n i M ! r =
           (if r \<noteq> i then updRange (\<lambda>j x. x - M ! r ! i * M ! i ! j) i (n + 1) (M ! r)
            else M ! r)"
proof -
  define stp where "stp = (\<lambda>M' k'. if k' \<noteq> i
                     then (let factor = M' ! k' ! i
                           in M'[k' := updRange (\<lambda>j x. x - factor * M' ! i ! j) i (n + 1) (M' ! k')])
                     else M')"
  have run: "eliminateRows n i M = foldl stp M [0..<n]"
    by (simp add: eliminateRows_def stp_def)
  have stp_app: "stp E k' = (if k' \<noteq> i
       then E[k' := updRange (\<lambda>j x. x - E ! k' ! i * E ! i ! j) i (n + 1) (E ! k')] else E)"
    for E k'
    by (simp add: stp_def Let_def)
  have part: "length (foldl stp M [0..<m]) = n
       \<and> (\<forall>r<n. foldl stp M [0..<m] ! r =
             (if r < m \<and> r \<noteq> i
              then updRange (\<lambda>j x. x - M ! r ! i * M ! i ! j) i (n + 1) (M ! r)
              else M ! r))" if "m \<le> n" for m
    using that
  proof (induction m)
    case 0
    show ?case by (simp add: len)
  next
    case (Suc m)
    let ?E = "foldl stp M [0..<m]"
    from Suc have IH: "length ?E = n"
      "\<And>r. r < n \<Longrightarrow> ?E ! r =
             (if r < m \<and> r \<noteq> i
              then updRange (\<lambda>j x. x - M ! r ! i * M ! i ! j) i (n + 1) (M ! r)
              else M ! r)"
      and m: "m < n" by simp_all
    have Ei: "?E ! i = M ! i" using IH(2) [OF i] by simp
    have Em: "?E ! m = M ! m" using IH(2) [OF m] by simp
    have next_E: "foldl stp M [0..<Suc m] = stp ?E m" by simp
    show ?case
    proof (cases "m = i")
      case True
      then have "stp ?E m = ?E" by (simp add: stp_app)
      with IH True show ?thesis unfolding next_E by (auto simp: less_Suc_eq)
    next
      case False
      then have "stp ?E m = ?E[m := updRange (\<lambda>j x. x - M ! m ! i * M ! i ! j) i (n + 1) (M ! m)]"
        by (simp add: stp_app Ei Em)
      with IH False m show ?thesis unfolding next_E
        by (auto simp: less_Suc_eq nth_list_update)
    qed
  qed
  from part [of n] show "length (eliminateRows n i M) = n"
    and "\<forall>r<n. eliminateRows n i M ! r =
           (if r \<noteq> i then updRange (\<lambda>j x. x - M ! r ! i * M ! i ! j) i (n + 1) (M ! r)
            else M ! r)"
    unfolding run by simp_all
qed

lemma pivotTolerance_pos: "0 < pivotTolerance"
  by (simp add: pivotTolerance_def)

lemma swapRows_rows:
  assumes "length M = n" and "i < n" and "p < n"
  shows "length (swapRows M i p) = n"
    and "\<forall>r<n. swapRows M i p ! r = (if r = p then M ! i else if r = i then M ! p else M ! r)"
  using assms by (auto simp: swapRows_def nth_list_update)

lemma swapRows_wellShaped:
  assumes "wellShaped n M" and "i < n" and "p < n"
  shows "wellShaped n (swapRows M i p)"
  using assms swapRows_rows [of M n i p]
  by (auto simp: wellShaped_def all_set_conv_all_nth)

lemma swapRows_reduced:
  assumes "length M = n" and "i < n" and "i \<le> p" and "p < n" and "reducedUpTo n i M"
  shows "reducedUpTo n i (swapRows M i p)"
  using assms swapRows_rows(2) [of M n i p]
  by (auto simp: reducedUpTo_def)

lemma swapRows_satisfies:
  assumes "length M = n" and "i < n" and "p < n" and "satisfies n (swapRows M i p) x"
  shows "satisfies n M x"
  unfolding satisfies_def
proof (intro allI impI)
  fix r assume r: "r < n"
  define r' where "r' = (if r = i then p else if r = p then i else r)"
  have "r' < n" using r assms(2,3) by (simp add: r'_def)
  moreover have "swapRows M i p ! r' = M ! r"
    using swapRows_rows(2) [OF assms(1-3)] \<open>r' < n\<close> by (auto simp: r'_def)
  ultimately show "(\<Sum>j<n. M ! r ! j * x ! j) = M ! r ! n"
    using assms(4) unfolding satisfies_def by metis
qed

lemma wellShaped_row:
  assumes "wellShaped n M" and "r < n"
  shows "length (M ! r) = n + 1"
  using assms by (simp add: wellShaped_def)

lemma pivotStep_entries:
  assumes ws: "wellShaped n M1" and i: "i < n" and red: "reducedUpTo n i M1"
    and pv: "M1 ! i ! i \<noteq> 0"
  defines "R \<equiv> eliminateRows n i (M1[i := updRange (\<lambda>j x. x / (M1 ! i ! i)) i (n + 1) (M1 ! i)])"
  shows "wellShaped n R"
    and "\<forall>j\<le>n. R ! i ! j * (M1 ! i ! i) = M1 ! i ! j"
    and "\<forall>r<n. r \<noteq> i \<longrightarrow> (\<forall>j\<le>n. R ! r ! j + M1 ! r ! i * R ! i ! j = M1 ! r ! j)"
    and "reducedUpTo n (Suc i) R"
proof -
  define sc where "sc = updRange (\<lambda>j x. x / (M1 ! i ! i)) i (n + 1) (M1 ! i)"
  define M2 where "M2 = M1[i := sc]"
  have lenM1: "length M1 = n" using ws by (simp add: wellShaped_def)
  have lenrow: "length (M1 ! r) = n + 1" if "r < n" for r
    using wellShaped_row [OF ws that] .
  have lenM2: "length M2 = n" by (simp add: M2_def lenM1)
  have M2i: "M2 ! i = sc" using i by (simp add: M2_def lenM1)
  have M2r: "M2 ! r = M1 ! r" if "r \<noteq> i" for r using that by (simp add: M2_def)
  have zero_left: "M1 ! r ! c = (if r = c then 1 else 0)" if "c < i" "r < n" for r c
    using red that by (simp add: reducedUpTo_def)
  have sc_nth: "sc ! j = (if i \<le> j then M1 ! i ! j / (M1 ! i ! i) else M1 ! i ! j)" if "j \<le> n" for j
    using that lenrow [OF i] by (simp add: sc_def updRange_nth)
  have sc_left: "sc ! j = 0" if "j < i" for j
    using that i sc_nth [of j] zero_left [of j i] by simp
  have R_def': "R = eliminateRows n i M2" by (simp add: R_def M2_def sc_def)
  have Rlen: "length R = n"
    unfolding R_def' by (rule eliminateRows_rows(1) [OF lenM2 i])
  have Rrows: "R ! r = (if r \<noteq> i
         then updRange (\<lambda>j x. x - M2 ! r ! i * M2 ! i ! j) i (n + 1) (M2 ! r) else M2 ! r)"
    if "r < n" for r
    unfolding R_def' using eliminateRows_rows(2) [OF lenM2 i] that by simp
  have Ri: "R ! i = sc" using Rrows [OF i] M2i by simp
  have Rr: "R ! r ! j = (if i \<le> j then M1 ! r ! j - M1 ! r ! i * sc ! j else M1 ! r ! j)"
    if "r < n" "r \<noteq> i" "j \<le> n" for r j
    using that Rrows [OF that(1)] lenrow [OF that(1)] by (simp add: M2r M2i updRange_nth)
  show "wellShaped n R"
    unfolding wellShaped_def all_set_conv_all_nth
  proof (intro conjI allI impI)
    show "length R = n" by (rule Rlen)
    fix r assume "r < length R"
    then have r: "r < n" by (simp add: Rlen)
    show "length (R ! r) = n + 1"
      using Rrows [OF r] lenrow [OF r] lenrow [OF i] by (simp add: M2r M2i sc_def)
  qed
  show e1: "\<forall>j\<le>n. R ! i ! j * (M1 ! i ! i) = M1 ! i ! j"
  proof (intro allI impI)
    fix j assume j: "j \<le> n"
    show "R ! i ! j * (M1 ! i ! i) = M1 ! i ! j"
    proof (cases "i \<le> j")
      case True
      with pv show ?thesis by (simp add: Ri sc_nth [OF j])
    next
      case False
      then have "j < i" by simp
      with zero_left [of j i] i sc_left [of j] show ?thesis by (simp add: Ri)
    qed
  qed
  show "\<forall>r<n. r \<noteq> i \<longrightarrow> (\<forall>j\<le>n. R ! r ! j + M1 ! r ! i * R ! i ! j = M1 ! r ! j)"
  proof (intro allI impI)
    fix r j assume r: "r < n" "r \<noteq> i" and j: "j \<le> n"
    show "R ! r ! j + M1 ! r ! i * R ! i ! j = M1 ! r ! j"
    proof (cases "i \<le> j")
      case True
      then show ?thesis by (simp add: Rr [OF r j] Ri)
    next
      case False
      then have "j < i" by simp
      with sc_left [of j] False show ?thesis by (simp add: Rr [OF r j] Ri)
    qed
  qed
  show "reducedUpTo n (Suc i) R"
    unfolding reducedUpTo_def
  proof (intro allI impI)
    fix c r assume c: "c < Suc i" and r: "r < n"
    have cn: "c \<le> n" using c i by simp
    show "R ! r ! c = (if r = c then 1 else 0)"
    proof (cases "c = i")
      case True
      show ?thesis
      proof (cases "r = i")
        case True
        with \<open>c = i\<close> pv i show ?thesis by (simp add: Ri sc_nth)
      next
        case False
        have "sc ! i = 1" using pv i by (simp add: sc_nth)
        with False \<open>c = i\<close> i show ?thesis by (simp add: Rr [OF r False] )
      qed
    next
      case False
      with c have ci: "c < i" by simp
      show ?thesis
      proof (cases "r = i")
        case True
        with ci sc_left [of c] show ?thesis by (simp add: Ri)
      next
        case False
        with ci zero_left [OF ci r] show ?thesis by (simp add: Rr [OF r False cn])
      qed
    qed
  qed
qed

lemma pivotStep_satisfies:
  assumes ws: "wellShaped n M1" and i: "i < n" and red: "reducedUpTo n i M1"
    and pv: "M1 ! i ! i \<noteq> 0"
    and sat: "satisfies n
        (eliminateRows n i (M1[i := updRange (\<lambda>j x. x / (M1 ! i ! i)) i (n + 1) (M1 ! i)])) x"
  shows "satisfies n M1 x"
proof -
  define R where "R = eliminateRows n i (M1[i := updRange (\<lambda>j x. x / (M1 ! i ! i)) i (n + 1) (M1 ! i)])"
  note ent = pivotStep_entries [OF ws i red pv, folded R_def]
  from sat have satR: "\<And>r. r < n \<Longrightarrow> (\<Sum>j<n. R ! r ! j * x ! j) = R ! r ! n"
    by (simp add: satisfies_def R_def)
  have rowi: "(\<Sum>j<n. M1 ! i ! j * x ! j) = M1 ! i ! n"
  proof -
    have "(\<Sum>j<n. M1 ! i ! j * x ! j) = (\<Sum>j<n. M1 ! i ! i * (R ! i ! j * x ! j))"
    proof (intro sum.cong refl)
      fix j assume "j \<in> {..<n}"
      then have "j \<le> n" by simp
      with ent(2) have "M1 ! i ! j = R ! i ! j * (M1 ! i ! i)" by simp
      then show "M1 ! i ! j * x ! j = M1 ! i ! i * (R ! i ! j * x ! j)"
        by (simp add: algebra_simps)
    qed
    also have "\<dots> = M1 ! i ! i * (\<Sum>j<n. R ! i ! j * x ! j)"
      by (simp add: sum_distrib_left)
    also have "\<dots> = M1 ! i ! i * R ! i ! n"
      by (simp add: satR [OF i])
    also have "\<dots> = M1 ! i ! n"
      using ent(2) [rule_format, of n] by (simp add: algebra_simps)
    finally show ?thesis .
  qed
  show ?thesis
    unfolding satisfies_def
  proof (intro allI impI)
    fix r assume r: "r < n"
    show "(\<Sum>j<n. M1 ! r ! j * x ! j) = M1 ! r ! n"
    proof (cases "r = i")
      case True
      with rowi show ?thesis by simp
    next
      case False
      have "(\<Sum>j<n. M1 ! r ! j * x ! j)
          = (\<Sum>j<n. R ! r ! j * x ! j + M1 ! r ! i * (R ! i ! j * x ! j))"
      proof (intro sum.cong refl)
        fix j assume "j \<in> {..<n}"
        then have "j \<le> n" by simp
        with ent(3) r False have "M1 ! r ! j = R ! r ! j + M1 ! r ! i * R ! i ! j" by simp
        then show "M1 ! r ! j * x ! j = R ! r ! j * x ! j + M1 ! r ! i * (R ! i ! j * x ! j)"
          by (simp add: algebra_simps)
      qed
      also have "\<dots> = (\<Sum>j<n. R ! r ! j * x ! j) + M1 ! r ! i * (\<Sum>j<n. R ! i ! j * x ! j)"
        by (simp add: sum.distrib sum_distrib_left)
      also have "\<dots> = R ! r ! n + M1 ! r ! i * R ! i ! n"
        by (simp add: satR [OF r] satR [OF i])
      also have "\<dots> = M1 ! r ! n"
        using ent(3) r False by simp
      finally show ?thesis .
    qed
  qed
qed

text \<open>One pass of the outer loop that does not skip its pivot.\<close>

lemma gaussStep_invariant:
  assumes ws: "wellShaped n M" and i: "i < n" and red: "reducedUpTo n i M"
    and piv: "\<not> \<bar>swapRows M i (findPivot M n i) ! i ! i\<bar> < pivotTolerance"
  shows "wellShaped n (gaussStep n M i)"
    and "reducedUpTo n (Suc i) (gaussStep n M i)"
    and "satisfies n (gaussStep n M i) x \<Longrightarrow> satisfies n M x"
proof -
  define p where "p = findPivot M n i"
  define M1 where "M1 = swapRows M i p"
  have p: "i \<le> p" "p < n" using findPivot_range [OF i, of M] by (simp_all add: p_def)
  have lenM: "length M = n" using ws by (simp add: wellShaped_def)
  have ws1: "wellShaped n M1" unfolding M1_def by (rule swapRows_wellShaped [OF ws i p(2)])
  have red1: "reducedUpTo n i M1" unfolding M1_def by (rule swapRows_reduced [OF lenM i p red])
  have pv: "M1 ! i ! i \<noteq> 0" using piv pivotTolerance_pos by (auto simp: M1_def p_def)
  have step: "gaussStep n M i
      = eliminateRows n i (M1[i := updRange (\<lambda>j x. x / (M1 ! i ! i)) i (n + 1) (M1 ! i)])"
    using piv by (simp add: gaussStep_def Let_def M1_def p_def)
  show "wellShaped n (gaussStep n M i)"
    unfolding step by (rule pivotStep_entries(1) [OF ws1 i red1 pv])
  show "reducedUpTo n (Suc i) (gaussStep n M i)"
    unfolding step by (rule pivotStep_entries(4) [OF ws1 i red1 pv])
  assume "satisfies n (gaussStep n M i) x"
  then have "satisfies n M1 x"
    unfolding step by (rule pivotStep_satisfies [OF ws1 i red1 pv])
  then show "satisfies n M x"
    unfolding M1_def by (rule swapRows_satisfies [OF lenM i p(2)])
qed

lemma gauss_fold_invariant:
  assumes "wellShaped n M" and "i \<le> n" and "reducedUpTo n i M"
    and "noPivotSkipped n M [i..<n]"
  shows "wellShaped n (foldl (gaussStep n) M [i..<n])
       \<and> reducedUpTo n n (foldl (gaussStep n) M [i..<n])
       \<and> (satisfies n (foldl (gaussStep n) M [i..<n]) x \<longrightarrow> satisfies n M x)"
  using assms
proof (induction "n - i" arbitrary: M i)
  case 0
  then have "i = n" by simp
  with "0.prems" show ?case by simp
next
  case (Suc d)
  then have i: "i < n" and d: "d = n - Suc i" by simp_all
  have upt: "[i..<n] = i # [Suc i..<n]" using i by (simp add: upt_conv_Cons)
  from Suc.prems(4) have piv: "\<not> \<bar>swapRows M i (findPivot M n i) ! i ! i\<bar> < pivotTolerance"
    and rest: "noPivotSkipped n (gaussStep n M i) [Suc i..<n]"
    unfolding upt by simp_all
  note st = gaussStep_invariant [OF Suc.prems(1) i Suc.prems(3) piv]
  have "Suc i \<le> n" using i by simp
  from Suc.hyps(1) [OF d st(1) this st(2) rest] st(3) [of x]
  show ?case unfolding upt by simp
qed

lemma reduced_solution:
  assumes ws: "wellShaped n R" and red: "reducedUpTo n n R"
  shows "satisfies n R (map (\<lambda>row. row ! n) R)"
  unfolding satisfies_def
proof (intro allI impI)
  fix r assume r: "r < n"
  have len: "length R = n" using ws by (simp add: wellShaped_def)
  have "(\<Sum>j<n. R ! r ! j * map (\<lambda>row. row ! n) R ! j)
      = (\<Sum>j<n. if r = j then R ! j ! n else 0)"
    using red r by (intro sum.cong refl) (simp add: reducedUpTo_def len)
  also have "\<dots> = R ! r ! n"
    using r by simp
  finally show "(\<Sum>j<n. R ! r ! j * map (\<lambda>row. row ! n) R ! j) = R ! r ! n" .
qed

lemma augment_entries:
  assumes "length A' = n" and "\<forall>row\<in>set A'. length row = n"
  shows "wellShaped n (augment A' b)"
    and "\<forall>r<n. \<forall>j<n. augment A' b ! r ! j = A' ! r ! j"
    and "\<forall>r<n. augment A' b ! r ! n = b ! r"
  using assms by (auto simp: augment_def wellShaped_def nth_append)

lemma solveLinearSystem_solves:
  assumes len: "length A' = n" and rows: "\<forall>row\<in>set A'. length row = n"
    and ok: "noPivotSkipped n (augment A' b) [0..<n]"
  shows "length (solveLinearSystem A' b) = n"
    and "\<forall>r<n. (\<Sum>j<n. A' ! r ! j * solveLinearSystem A' b ! j) = b ! r"
proof -
  define R where "R = foldl (gaussStep n) (augment A' b) [0..<n]"
  define x where "x = map (\<lambda>row. row ! n) R"
  have sol: "solveLinearSystem A' b = x"
    by (simp add: solveLinearSystem_def Let_def len R_def x_def)
  note aug = augment_entries [OF len rows, of b]
  have red0: "reducedUpTo n 0 (augment A' b)" by (simp add: reducedUpTo_def)
  from gauss_fold_invariant [OF aug(1) le0 red0 ok, of x]
  have wsR: "wellShaped n R" and redR: "reducedUpTo n n R"
    and bk: "satisfies n R x \<Longrightarrow> satisfies n (augment A' b) x"
    by (simp_all add: R_def)
  have "satisfies n R x" unfolding x_def by (rule reduced_solution [OF wsR redR])
  then have "satisfies n (augment A' b) x" by (rule bk)
  then show "\<forall>r<n. (\<Sum>j<n. A' ! r ! j * solveLinearSystem A' b ! j) = b ! r"
    unfolding sol satisfies_def using aug(2,3) by simp
  show "length (solveLinearSystem A' b) = n"
    unfolding sol x_def using wsR by (simp add: wellShaped_def)
qed

lemma foldl_setCell_row:
  assumes "r < length A0" and "m \<le> length (A0 ! r)"
  shows "foldl (\<lambda>A' j. setCell A' r j y) A0 [0..<m]
       = A0[r := map (\<lambda>j. if j < m then y else A0 ! r ! j) [0..<length (A0 ! r)]]"
  using assms(2)
proof (induction m)
  case 0
  show ?case by (simp add: map_nth)
next
  case (Suc m)
  then have IH: "foldl (\<lambda>A' j. setCell A' r j y) A0 [0..<m]
       = A0[r := map (\<lambda>j. if j < m then y else A0 ! r ! j) [0..<length (A0 ! r)]]"
    and m: "m < length (A0 ! r)" by simp_all
  have "foldl (\<lambda>A' j. setCell A' r j y) A0 [0..<Suc m]
      = setCell (A0[r := map (\<lambda>j. if j < m then y else A0 ! r ! j) [0..<length (A0 ! r)]]) r m y"
    unfolding upt_Suc_append [OF le0] foldl_append IH by simp
  also have "\<dots> = A0[r := (map (\<lambda>j. if j < m then y else A0 ! r ! j) [0..<length (A0 ! r)])[m := y]]"
    using assms(1) by (simp add: setCell_def)
  also have "(map (\<lambda>j. if j < m then y else A0 ! r ! j) [0..<length (A0 ! r)])[m := y]
      = map (\<lambda>j. if j < Suc m then y else A0 ! r ! j) [0..<length (A0 ! r)]"
    using m by (auto intro!: nth_equalityI simp: nth_list_update less_Suc_eq)
  finally show ?case .
qed

lemma steadyStateSystem_entries:
  assumes n: "length P = n" and pos: "0 < n"
  shows "length (steadyStateSystem P) = n"
    and "\<forall>row\<in>set (steadyStateSystem P). length row = n"
    and "\<forall>i<n. \<forall>j<n. steadyStateSystem P ! i ! j =
           (if i = n - 1 then 1 else if i = j then P ! j ! i - 1 else P ! j ! i)"
proof -
  define A0 where "A0 = map (\<lambda>i. map (\<lambda>j. (if i = j then P ! j ! i - 1 else P ! j ! i)) [0..<n]) [0..<n]"
  have lenA0: "length A0 = n" by (simp add: A0_def)
  have last: "n - 1 < length A0" using pos by (simp add: lenA0)
  have lenlast: "length (A0 ! (n - 1)) = n" using pos by (simp add: A0_def)
  have sys: "steadyStateSystem P = A0[n - 1 := map (\<lambda>j. if j < n then 1 else A0 ! (n - 1) ! j) [0..<n]]"
    using foldl_setCell_row [OF last, of n 1] lenlast
    by (simp add: steadyStateSystem_def Let_def n A0_def [symmetric])
  show "length (steadyStateSystem P) = n" by (simp add: sys lenA0)
  show "\<forall>row\<in>set (steadyStateSystem P). length row = n"
    unfolding sys all_set_conv_all_nth by (auto simp: nth_list_update lenA0) (simp add: A0_def)
  show "\<forall>i<n. \<forall>j<n. steadyStateSystem P ! i ! j =
           (if i = n - 1 then 1 else if i = j then P ! j ! i - 1 else P ! j ! i)"
    unfolding sys by (auto simp: nth_list_update lenA0) (simp_all add: A0_def)
qed

section \<open>The steady state\<close>

lemma upt_numerals:
  "[0..<4] = [0, 1, 2, 3]" "[1..<4] = [1, 2, 3]" "[2..<4] = [2, 3]" "[3..<4] = [3]"
  "[4..<4] = []"
  "[0..<5] = [0, 1, 2, 3, 4]" "[1..<5] = [1, 2, 3, 4]" "[2..<5] = [2, 3, 4]"
  "[3..<5] = [3, 4]" "[4..<5] = [4]" "[5..<5] = []"
  "[0..<6] = [0, 1, 2, 3, 4, 5]" "[1..<6] = [1, 2, 3, 4, 5]" "[2..<6] = [2, 3, 4, 5]"
  "[3..<6] = [3, 4, 5]" "[4..<6] = [4, 5]" "[5..<6] = [5]"
  by (simp_all add: upt_rec)

lemma calculateSteadyState_stationary:
  assumes rs: "row_stochastic n P" and pos: "0 < n" and ok: "steadyStateNoSkip P"
  shows "length (calculateSteadyState P) = n"
    and "sum_list (calculateSteadyState P) = 1"
    and "multiplyVectorMatrix (calculateSteadyState P) P = calculateSteadyState P"
proof -
  define x where "x = calculateSteadyState P"
  define b where "b = (replicate n (0::real))[n - 1 := 1]"
  have n: "length P = n" using rs by (simp add: row_stochastic_def)
  note sys = steadyStateSystem_entries [OF n pos]
  have x_sol: "x = solveLinearSystem (steadyStateSystem P) b"
    by (simp add: x_def calculateSteadyState_def Let_def n b_def)
  have ok': "noPivotSkipped n (augment (steadyStateSystem P) b) [0..<n]"
    using ok by (simp add: steadyStateNoSkip_def n b_def)
  note sol = solveLinearSystem_solves [OF sys(1,2) ok', folded x_sol]
  show len: "length (calculateSteadyState P) = n"
    using sol(1) by (simp add: x_def)
  have b_nth: "b ! r = (if r = n - 1 then 1 else 0)" if "r < n" for r
    using that by (simp add: b_def nth_list_update)
  have total: "(\<Sum>j<n. x ! j) = 1"
  proof -
    have "(\<Sum>j<n. steadyStateSystem P ! (n - 1) ! j * x ! j) = b ! (n - 1)"
      using sol(2) pos by simp
    moreover have "(\<Sum>j<n. steadyStateSystem P ! (n - 1) ! j * x ! j) = (\<Sum>j<n. x ! j)"
      using sys(3) pos by (intro sum.cong refl) simp
    ultimately show ?thesis using pos by (simp add: b_nth)
  qed
  then show "sum_list (calculateSteadyState P) = 1"
    using sol(1) by (simp add: sum_list_lessThan x_def [symmetric])
  have fixed: "(\<Sum>j<n. x ! j * P ! j ! i) = x ! i" if i: "i < n - 1" for i
  proof -
    have i': "i < n" "i \<noteq> n - 1" using i by simp_all
    have "(\<Sum>j<n. steadyStateSystem P ! i ! j * x ! j) = 0"
      using sol(2) i' by (simp add: b_nth)
    moreover have "(\<Sum>j<n. steadyStateSystem P ! i ! j * x ! j)
        = (\<Sum>j<n. x ! j * P ! j ! i - (if i = j then x ! j else 0))"
      using sys(3) i' by (intro sum.cong refl) (simp add: algebra_simps)
    moreover have "\<dots> = (\<Sum>j<n. x ! j * P ! j ! i) - x ! i"
      using i' by (simp add: sum_subtractf)
    ultimately show ?thesis by simp
  qed
  have rs': "row_stochastic (length x) P" using rs sol(1) by simp
  have mass: "(\<Sum>i<n. multiplyVectorMatrix x P ! i) = 1"
    using multiplyVectorMatrix_sum [OF rs'] total sol(1)
    by (simp add: sum_list_lessThan)
  obtain m where m: "n = Suc m" using pos by (cases n) simp_all
  have entry: "multiplyVectorMatrix x P ! i = x ! i" if "i < n" for i
  proof (cases "i < n - 1")
    case True
    with fixed [OF True] that sol(1) show ?thesis by (simp add: multiplyVectorMatrix_nth)
  next
    case False
    with that have im: "i = m" by (simp add: m)
    have "(\<Sum>i<m. multiplyVectorMatrix x P ! i) = (\<Sum>i<m. x ! i)"
    proof (intro sum.cong refl)
      fix k assume "k \<in> {..<m}"
      then have k: "k < n - 1" "k < n" by (simp_all add: m)
      with fixed [OF k(1)] sol(1) show "multiplyVectorMatrix x P ! k = x ! k"
        by (simp add: multiplyVectorMatrix_nth)
    qed
    with mass total show ?thesis by (simp add: m im)
  qed
  show "multiplyVectorMatrix (calculateSteadyState P) P = calculateSteadyState P"
    using entry sol(1) by (intro nth_equalityI) (simp_all add: x_def)
qed

lemma tinyLeak_steps:
  "gaussStep 5
     [[- 1, 0, 0, 0, 34359738367 / 34359738368, 0],
       [1, - 1, 0, 1, 0, 0],
       [0, 0, - (1 / 34359738368), 0, 1 / 34359738368, 0],
       [0, 1, 1 / 34359738368, - 1, 0, 0],
       [1, 1, 1, 1, 1, 1]] 0 =
     [[1, 0, 0, 0, - (34359738367 / 34359738368), 0],
       [0, - 1, 0, 1, 34359738367 / 34359738368, 0],
       [0, 0, - (1 / 34359738368), 0, 1 / 34359738368, 0],
       [0, 1, 1 / 34359738368, - 1, 0, 0],
       [0, 1, 1, 1, 68719476735 / 34359738368, 1]]"
  "gaussStep 5
     [[1, 0, 0, 0, - (34359738367 / 34359738368), 0],
       [0, - 1, 0, 1, 34359738367 / 34359738368, 0],
       [0, 0, - (1 / 34359738368), 0, 1 / 34359738368, 0],
       [0, 1, 1 / 34359738368, - 1, 0, 0],
       [0, 1, 1, 1, 68719476735 / 34359738368, 1]] 1 =
     [[1, 0, 0, 0, - (34359738367 / 34359738368), 0],
       [0, 1, 0, - 1, - (34359738367 / 34359738368), 0],
       [0, 0, - (1 / 34359738368), 0, 1 / 34359738368, 0],
       [0, 0, 1 / 34359738368, 0, 34359738367 / 34359738368, 0],
       [0, 0, 1, 2, 51539607551 / 17179869184, 1]]"
  "gaussStep 5
     [[1, 0, 0, 0, - (34359738367 / 34359738368), 0],
       [0, 1, 0, - 1, - (34359738367 / 34359738368), 0],
       [0, 0, - (1 / 34359738368), 0, 1 / 34359738368, 0],
       [0, 0, 1 / 34359738368, 0, 34359738367 / 34359738368, 0],
       [0, 0, 1, 2, 51539607551 / 17179869184, 1]] 2 =
     [[1, 0, 0, 0, - (34359738367 / 34359738368), 0],
       [0, 1, 0, - 1, - (34359738367 / 34359738368), 0],
       [0, 0, 1, 2, 51539607551 / 17179869184, 1],
       [0, 0, 0, - (1 / 17179869184), 590295810289986174977 / 590295810358705651712, - (1 / 34359738368)],
       [0, 0, 0, 1 / 17179869184, 68719476735 / 590295810358705651712, 1 / 34359738368]]"
  "gaussStep 5
     [[1, 0, 0, 0, - (34359738367 / 34359738368), 0],
       [0, 1, 0, - 1, - (34359738367 / 34359738368), 0],
       [0, 0, 1, 2, 51539607551 / 17179869184, 1],
       [0, 0, 0, - (1 / 17179869184), 590295810289986174977 / 590295810358705651712, - (1 / 34359738368)],
       [0, 0, 0, 1 / 17179869184, 68719476735 / 590295810358705651712, 1 / 34359738368]] 3 =
     [[1, 0, 0, 0, - (34359738367 / 34359738368), 0],
       [0, 1, 0, - 1, - (34359738367 / 34359738368), 0],
       [0, 0, 1, 2, 51539607551 / 17179869184, 1],
       [0, 0, 0, - (1 / 17179869184), 590295810289986174977 / 590295810358705651712, - (1 / 34359738368)],
       [0, 0, 0, 1 / 17179869184, 68719476735 / 590295810358705651712, 1 / 34359738368]]"
  "gaussStep 5
     [[1, 0, 0, 0, - (34359738367 / 34359738368), 0],
       [0, 1, 0, - 1, - (34359738367 / 34359738368), 0],
       [0, 0, 1, 2, 51539607551 / 17179869184, 1],
       [0, 0, 0, - (1 / 17179869184), 590295810289986174977 / 590295810358705651712, - (1 / 34359738368)],
       [0, 0, 0, 1 / 17179869184, 68719476735 / 590295810358705651712, 1 / 34359738368]] 4 =
     [[1, 0, 0, 0, 0, 34359738367 / 137438953470],
       [0, 1, 0, - 1, 0, 34359738367 / 137438953470],
       [0, 0, 1, 2, 0, 17179869184 / 68719476735],
       [0, 0, 0, - (1 / 17179869184), 0, - (17179869184 / 68719476735)],
       [0, 0, 0, 1 / 17179869184, 1, 17179869184 / 68719476735]]"
  by (simp_all add: gaussStep_def findPivot_def swapRows_def eliminateRows_def updRange_def
      pivotTolerance_def Let_def upt_numerals eval_nat_numeral)

lemma baseline_steps:
  "gaussStep 5
     [[- (1 / 10), 3 / 20, 1 / 100, 0, 0, 0],
       [9 / 100, - (3 / 10), 1 / 5, 1 / 20, 0, 0],
       [1 / 100, 7 / 50, - (2 / 5), 1 / 5, 1 / 10, 0],
       [0, 1 / 100, 9 / 50, - (2 / 5), 2 / 5, 0],
       [1, 1, 1, 1, 1, 1]] 0 =
     [[1, 1, 1, 1, 1, 1],
       [0, - (39 / 100), 11 / 100, - (1 / 25), - (9 / 100), - (9 / 100)],
       [0, 13 / 100, - (41 / 100), 19 / 100, 9 / 100, - (1 / 100)],
       [0, 1 / 100, 9 / 50, - (2 / 5), 2 / 5, 0],
       [0, 1 / 4, 11 / 100, 1 / 10, 1 / 10, 1 / 10]]"
  "gaussStep 5
     [[1, 1, 1, 1, 1, 1],
       [0, - (39 / 100), 11 / 100, - (1 / 25), - (9 / 100), - (9 / 100)],
       [0, 13 / 100, - (41 / 100), 19 / 100, 9 / 100, - (1 / 100)],
       [0, 1 / 100, 9 / 50, - (2 / 5), 2 / 5, 0],
       [0, 1 / 4, 11 / 100, 1 / 10, 1 / 10, 1 / 10]] 1 =
     [[1, 0, 50 / 39, 35 / 39, 10 / 13, 10 / 13],
       [0, 1, - (11 / 39), 4 / 39, 3 / 13, 3 / 13],
       [0, 0, - (28 / 75), 53 / 300, 3 / 50, - (1 / 25)],
       [0, 0, 713 / 3900, - (391 / 975), 517 / 1300, - (3 / 1300)],
       [0, 0, 176 / 975, 29 / 390, 11 / 260, 11 / 260]]"
  "gaussStep 5
     [[1, 0, 50 / 39, 35 / 39, 10 / 13, 10 / 13],
       [0, 1, - (11 / 39), 4 / 39, 3 / 13, 3 / 13],
       [0, 0, - (28 / 75), 53 / 300, 3 / 50, - (1 / 25)],
       [0, 0, 713 / 3900, - (391 / 975), 517 / 1300, - (3 / 1300)],
       [0, 0, 176 / 975, 29 / 390, 11 / 260, 11 / 260]] 2 =
     [[1, 0, 0, 1095 / 728, 355 / 364, 115 / 182],
       [0, 1, 0, - (45 / 1456), 135 / 728, 95 / 364],
       [0, 0, 1, - (53 / 112), - (9 / 56), 3 / 28],
       [0, 0, 0, - (45793 / 145600), 31091 / 72800, - (797 / 36400)],
       [0, 0, 0, 727 / 4550, 649 / 9100, 209 / 9100]]"
  "gaussStep 5
     [[1, 0, 0, 1095 / 728, 355 / 364, 115 / 182],
       [0, 1, 0, - (45 / 1456), 135 / 728, 95 / 364],
       [0, 0, 1, - (53 / 112), - (9 / 56), 3 / 28],
       [0, 0, 0, - (45793 / 145600), 31091 / 72800, - (797 / 36400)],
       [0, 0, 0, 727 / 4550, 649 / 9100, 209 / 9100]] 3 =
     [[1, 0, 0, 0, 138190 / 45793, 24140 / 45793],
       [0, 1, 0, 0, 6570 / 45793, 12050 / 45793],
       [0, 0, 1, 0, - (36785 / 45793), 6415 / 45793],
       [0, 0, 0, 1, - (62182 / 45793), 3188 / 45793],
       [0, 0, 0, 0, 264027 / 915860, 10847 / 915860]]"
  "gaussStep 5
     [[1, 0, 0, 0, 138190 / 45793, 24140 / 45793],
       [0, 1, 0, 0, 6570 / 45793, 12050 / 45793],
       [0, 0, 1, 0, - (36785 / 45793), 6415 / 45793],
       [0, 0, 0, 1, - (62182 / 45793), 3188 / 45793],
       [0, 0, 0, 0, 264027 / 915860, 10847 / 915860]] 4 =
     [[1, 0, 0, 0, 0, 106450 / 264027],
       [0, 1, 0, 0, 0, 22640 / 88009],
       [0, 0, 1, 0, 0, 45700 / 264027],
       [0, 0, 0, 1, 0, 33110 / 264027],
       [0, 0, 0, 0, 1, 10847 / 264027]]"
  by (simp_all add: gaussStep_def findPivot_def swapRows_def eliminateRows_def updRange_def
      pivotTolerance_def Let_def upt_numerals eval_nat_numeral)

lemma baseline_pivots:
  "\<not> \<bar>swapRows
     [[- (1 / 10), 3 / 20, 1 / 100, 0, 0, 0],
       [9 / 100, - (3 / 10), 1 / 5, 1 / 20, 0, 0],
       [1 / 100, 7 / 50, - (2 / 5), 1 / 5, 1 / 10, 0],
       [0, 1 / 100, 9 / 50, - (2 / 5), 2 / 5, 0],
       [1, 1, 1, 1, 1, 1]] 0
     (findPivot
     [[- (1 / 10), 3 / 20, 1 / 100, 0, 0, 0],
       [9 / 100, - (3 / 10), 1 / 5, 1 / 20, 0, 0],
       [1 / 100, 7 / 50, - (2 / 5), 1 / 5, 1 / 10, 0],
       [0, 1 / 100, 9 / 50, - (2 / 5), 2 / 5, 0],
       [1, 1, 1, 1, 1, 1]] 5 0) ! 0 ! 0\<bar> < pivotTolerance"
  "\<not> \<bar>swapRows
     [[1, 1, 1, 1, 1, 1],
       [0, - (39 / 100), 11 / 100, - (1 / 25), - (9 / 100), - (9 / 100)],
       [0, 13 / 100, - (41 / 100), 19 / 100, 9 / 100, - (1 / 100)],
       [0, 1 / 100, 9 / 50, - (2 / 5), 2 / 5, 0],
       [0, 1 / 4, 11 / 100, 1 / 10, 1 / 10, 1 / 10]] 1
     (findPivot
     [[1, 1, 1, 1, 1, 1],
       [0, - (39 / 100), 11 / 100, - (1 / 25), - (9 / 100), - (9 / 100)],
       [0, 13 / 100, - (41 / 100), 19 / 100, 9 / 100, - (1 / 100)],
       [0, 1 / 100, 9 / 50, - (2 / 5), 2 / 5, 0],
       [0, 1 / 4, 11 / 100, 1 / 10, 1 / 10, 1 / 10]] 5 1) ! 1 ! 1\<bar> < pivotTolerance"
  "\<not> \<bar>swapRows
     [[1, 0, 50 / 39, 35 / 39, 10 / 13, 10 / 13],
       [0, 1, - (11 / 39), 4 / 39, 3 / 13, 3 / 13],
       [0, 0, - (28 / 75), 53 / 300, 3 / 50, - (1 / 25)],
       [0, 0, 713 / 3900, - (391 / 975), 517 / 1300, - (3 / 1300)],
       [0, 0, 176 / 975, 29 / 390, 11 / 260, 11 / 260]] 2
     (findPivot
     [[1, 0, 50 / 39, 35 / 39, 10 / 13, 10 / 13],
       [0, 1, - (11 / 39), 4 / 39, 3 / 13, 3 / 13],
       [0, 0, - (28 / 75), 53 / 300, 3 / 50, - (1 / 25)],
       [0, 0, 713 / 3900, - (391 / 975), 517 / 1300, - (3 / 1300)],
       [0, 0, 176 / 975, 29 / 390, 11 / 260, 11 / 260]] 5 2) ! 2 ! 2\<bar> < pivotTolerance"
  "\<not> \<bar>swapRows
     [[1, 0, 0, 1095 / 728, 355 / 364, 115 / 182],
       [0, 1, 0, - (45 / 1456), 135 / 728, 95 / 364],
       [0, 0, 1, - (53 / 112), - (9 / 56), 3 / 28],
       [0, 0, 0, - (45793 / 145600), 31091 / 72800, - (797 / 36400)],
       [0, 0, 0, 727 / 4550, 649 / 9100, 209 / 9100]] 3
     (findPivot
     [[1, 0, 0, 1095 / 728, 355 / 364, 115 / 182],
       [0, 1, 0, - (45 / 1456), 135 / 728, 95 / 364],
       [0, 0, 1, - (53 / 112), - (9 / 56), 3 / 28],
       [0, 0, 0, - (45793 / 145600), 31091 / 72800, - (797 / 36400)],
       [0, 0, 0, 727 / 4550, 649 / 9100, 209 / 9100]] 5 3) ! 3 ! 3\<bar> < pivotTolerance"
  "\<not> \<bar>swapRows
     [[1, 0, 0, 0, 138190 / 45793, 24140 / 45793],
       [0, 1, 0, 0, 6570 / 45793, 12050 / 45793],
       [0, 0, 1, 0, - (36785 / 45793), 6415 / 45793],
       [0, 0, 0, 1, - (62182 / 45793), 3188 / 45793],
       [0, 0, 0, 0, 264027 / 915860, 10847 / 915860]] 4
     (findPivot
     [[1, 0, 0, 0, 138190 / 45793, 24140 / 45793],
       [0, 1, 0, 0, 6570 / 45793, 12050 / 45793],
       [0, 0, 1, 0, - (36785 / 45793), 6415 / 45793],
       [0, 0, 0, 1, - (62182 / 45793), 3188 / 45793],
       [0, 0, 0, 0, 264027 / 915860, 10847 / 915860]] 5 4) ! 4 ! 4\<bar> < pivotTolerance"
  by (simp_all add: findPivot_def swapRows_def pivotTolerance_def upt_numerals eval_nat_numeral)

lemma tinyLeak_system:
  "augment (steadyStateSystem tinyLeak) ((replicate 5 0)[5 - 1 := 1]) =
     [[- 1, 0, 0, 0, 34359738367 / 34359738368, 0],
      [1, - 1, 0, 1, 0, 0],
      [0, 0, - (1 / 34359738368), 0, 1 / 34359738368, 0],
      [0, 1, 1 / 34359738368, - 1, 0, 0],
      [1, 1, 1, 1, 1, 1]]"
  by (simp add: augment_def steadyStateSystem_def tinyLeak_def upt_numerals setCell_def
      eval_nat_numeral)

lemma calculateSteadyState_tinyLeak:
  "calculateSteadyState tinyLeak =
     [34359738367 / 137438953470, 34359738367 / 137438953470, 17179869184 / 68719476735,
      - (17179869184 / 68719476735), 17179869184 / 68719476735]"
proof -
  have len: "length tinyLeak = 5" "length (steadyStateSystem tinyLeak) = 5"
    by (simp_all add: tinyLeak_def steadyStateSystem_entries(1))
  have "foldl (gaussStep 5)
      (augment (steadyStateSystem tinyLeak) ((replicate 5 0)[5 - 1 := 1])) [0, 1, 2, 3, 4] =
     [[1, 0, 0, 0, 0, 34359738367 / 137438953470],
      [0, 1, 0, - 1, 0, 34359738367 / 137438953470],
      [0, 0, 1, 2, 0, 17179869184 / 68719476735],
      [0, 0, 0, - (1 / 17179869184), 0, - (17179869184 / 68719476735)],
      [0, 0, 0, 1 / 17179869184, 1, 17179869184 / 68719476735]]"
    unfolding tinyLeak_system foldl_Cons foldl_Nil tinyLeak_steps ..
  then show ?thesis
    by (simp add: calculateSteadyState_def solveLinearSystem_def Let_def len upt_numerals)
qed

lemma baseline_system:
  "augment (steadyStateSystem createBaselineMatrix) ((replicate 5 0)[5 - 1 := 1]) =
     [[- (1 / 10), 3 / 20, 1 / 100, 0, 0, 0],
      [9 / 100, - (3 / 10), 1 / 5, 1 / 20, 0, 0],
      [1 / 100, 7 / 50, - (2 / 5), 1 / 5, 1 / 10, 0],
      [0, 1 / 100, 9 / 50, - (2 / 5), 2 / 5, 0],
      [1, 1, 1, 1, 1, 1]]"
  by (simp add: augment_def steadyStateSystem_def createBaselineMatrix_rows upt_numerals
      setCell_def eval_nat_numeral)

lemma steadyStateNoSkip_baseline: "steadyStateNoSkip createBaselineMatrix"
proof -
  have len: "length createBaselineMatrix = 5"
    by (simp add: createBaselineMatrix_rows)
  show ?thesis
    unfolding steadyStateNoSkip_def len upt_numerals baseline_system noPivotSkipped.simps
      baseline_steps
    by (intro conjI baseline_pivots TrueI)
qed

text \<open>
  Claim C2, amended. For every row-stochastic \<open>n \<times> n\<close> matrix \<open>P\<close> with \<open>n > 0\<close> on which
  the elimination run by \<open>calculateSteadyState\<close> skips no pivot (every pivot it meets has
  absolute value at least \<open>1e-10\<close>), the result \<open>\<pi>\<close> has \<open>n\<close> entries summing to 1
  and is fixed by \<open>P\<close>: \<open>\<pi> \<cdot> P = \<pi>\<close>, so the L1 error is 0.
\<close>

theorem calculateSteadyState_fixed_point:
  assumes "row_stochastic n P" and "0 < n" and "steadyStateNoSkip P"
  shows "length (calculateSteadyState P) = n
       \<and> sum_list (calculateSteadyState P) = 1
       \<and> multiplyVectorMatrix (calculateSteadyState P) P = calculateSteadyState P
       \<and> (\<Sum>j<n. \<bar>multiplyVectorMatrix (calculateSteadyState P) P ! j
                    - calculateSteadyState P ! j\<bar>) < 1 / 10 ^ 6"
  using calculateSteadyState_stationary [OF assms] by simp

theorem calculateSteadyState_fixed_point_witness:
  "row_stochastic 5 createBaselineMatrix \<and> (0::nat) < 5
   \<and> steadyStateNoSkip createBaselineMatrix
   \<and> sum_list (calculateSteadyState createBaselineMatrix) = 1
   \<and> multiplyVectorMatrix (calculateSteadyState createBaselineMatrix) createBaselineMatrix
       = calculateSteadyState createBaselineMatrix"
  using calculateSteadyState_fixed_point
    [OF createBaselineMatrix_stochastic _ steadyStateNoSkip_baseline]
    createBaselineMatrix_stochastic steadyStateNoSkip_baseline
  by simp

text \<open>
  The claim as stated fails on the row-stochastic matrix \<open>tinyLeak\<close>: the pivot of column 3
  is \<open>2^-34\<close>, below the tolerance, the column is skipped, and the result has a negative
  entry, sums to less than \<open>4/5\<close> and is moved by \<open>P\<close> by more than \<open>1e-6\<close> in L1 norm.
\<close>

theorem calculateSteadyState_counterexample:
  "row_stochastic 5 tinyLeak
   \<and> sum_list (calculateSteadyState tinyLeak) < 4 / 5
   \<and> calculateSteadyState tinyLeak ! 3 < 0
   \<and> 1 / 10 ^ 6 \<le> (\<Sum>j<5. \<bar>multiplyVectorMatrix (calculateSteadyState tinyLeak) tinyLeak ! j
                             - calculateSteadyState tinyLeak ! j\<bar>)"
proof -
  have "row_stochastic 5 tinyLeak"
    by (simp add: row_stochastic_def prob_vector_def tinyLeak_def)
  moreover have "multiplyVectorMatrix (calculateSteadyState tinyLeak) tinyLeak
      = [34359738367 / 137438953470, - (1 / 137438953470), 17179869184 / 68719476735,
         17179869184 / 68719476735, 0]"
    unfolding calculateSteadyState_tinyLeak
    by (simp add: multiplyVectorMatrix_def tinyLeak_def upt_numerals)
  ultimately show ?thesis
    by (simp add: calculateSteadyState_tinyLeak sum_lessThan_5)
qed
section \<open>Weights that the generated chains contract\<close>

text \<open>
  For \<open>risk \<le> 0.1\<close> the weights 1000, 890, 719, 503 on the transient states and the factor
  \<open>247/250\<close>, for \<open>risk \<ge> 0.1\<close> the weights 1000, 909, 748, 614 and the factor \<open>123/125\<close>:
  every transient row of the generated matrix maps the weights below the factor times the
  row's own weight.
\<close>

lemma sum_lessThan_4: "(\<Sum>i<(4::nat). f i) = f 0 + f 1 + f 2 + (f 3 :: real)"
  by (simp add: lessThan_nat_numeral lessThan_Suc eval_nat_numeral)

lemma clamp_twice: "0 \<le> y \<Longrightarrow> max 0 (max 0 x - y) = max 0 (x - (y::real))"
  by (simp add: max_def)

lemma normalizeRow_weighted:
  assumes "0 < a + b + c + d + e"
    and "a * w0 + b * w1 + c * w2 + d * w3 \<le> lam * wi * (a + b + c + d + e)"
  shows "(\<Sum>j<4. normalizeRow [a, b, c, d, e] ! j * [w0, w1, w2, w3] ! j) \<le> lam * wi"
proof -
  define s where "s = a + b + c + d + e"
  have s: "0 < s" using assms(1) by (simp add: s_def)
  have nr: "normalizeRow [a, b, c, d, e] = [a / s, b / s, c / s, d / s, e / s]"
    using s by (simp add: normalizeRow_def s_def Let_def)
  have "(\<Sum>j<4. normalizeRow [a, b, c, d, e] ! j * [w0, w1, w2, w3] ! j)
      = (a * w0 + b * w1 + c * w2 + d * w3) / s"
    unfolding nr sum_lessThan_4 by (simp add: add_divide_distrib)
  also have "\<dots> \<le> lam * wi"
    using assms(2) s by (simp add: s_def [symmetric] pos_divide_le_eq)
  finally show ?thesis .
qed

lemma parametric_contraction_low:
  assumes "0 \<le> e" "e \<le> 1" "0 \<le> r" "r \<le> 1 / 10"
  shows "\<forall>i<4. (\<Sum>j<4. generateParametricMatrix \<lparr>effort = e, risk = r, isAbsorbing = a\<rparr> ! i ! j
                     * [1000, 890, 719, 503] ! j)
               \<le> 247 / 250 * [1000, 890, 719, 503] ! i"
proof -
  have y: "0 \<le> r * 3 / 10" using assms(3) by simp
  have r0: "(\<Sum>j<4. normalizeRow [max 0 (9 / 10 - 18 * e / 25 - r * 3 / 20),
         max 0 (9 / 100 + 18 * e / 25 - r * 3 / 20), 1 / 100 + r * 3 / 10, 0, 0] ! j
         * [1000, 890, 719, 503] ! j) \<le> 247 / 250 * 1000"
    using assms by (intro normalizeRow_weighted) (auto simp: max_def)
  have r1: "(\<Sum>j<4. normalizeRow [3 / 20 + r * 3 / 10,
         max 0 (max 0 (7 / 10 - 14 * e / 25 - r * 3 / 20) - r * 3 / 10),
         max 0 (7 / 50 + 14 * e / 25 - r * 3 / 20), 1 / 100 + r * 3 / 10, 0] ! j
         * [1000, 890, 719, 503] ! j) \<le> 247 / 250 * 890"
    unfolding clamp_twice [OF y] using assms by (intro normalizeRow_weighted) (auto simp: max_def)
  have r2: "(\<Sum>j<4. normalizeRow [1 / 100, 1 / 5 + r * 3 / 10,
         max 0 (max 0 (3 / 5 - 12 * e / 25 - r * 3 / 20) - r * 3 / 10),
         max 0 (9 / 50 + 12 * e / 25 - r * 3 / 20), 1 / 100 + r * 3 / 10] ! j
         * [1000, 890, 719, 503] ! j) \<le> 247 / 250 * 719"
    unfolding clamp_twice [OF y] using assms by (intro normalizeRow_weighted) (auto simp: max_def)
  have r3: "(\<Sum>j<4. normalizeRow [0, 1 / 20, 1 / 5 + r * 3 / 10,
         max 0 (3 / 5 - 12 * e / 25 - r * 3 / 10), 3 / 20 + 12 * e / 25] ! j
         * [1000, 890, 719, 503] ! j) \<le> 247 / 250 * 503"
    using assms by (intro normalizeRow_weighted) (auto simp: max_def)
  show ?thesis
    unfolding generateParametricMatrix_rows
  proof (intro allI impI)
    fix i :: nat assume "i < 4"
    then consider "i = 0" | "i = 1" | "i = 2" | "i = 3" by linarith
    then show "(\<Sum>j<4. [normalizeRow [max 0 (9 / 10 - 18 * e / 25 - r * 3 / 20),
         max 0 (9 / 100 + 18 * e / 25 - r * 3 / 20), 1 / 100 + r * 3 / 10, 0, 0],
       normalizeRow [3 / 20 + r * 3 / 10,
         max 0 (max 0 (7 / 10 - 14 * e / 25 - r * 3 / 20) - r * 3 / 10),
         max 0 (7 / 50 + 14 * e / 25 - r * 3 / 20), 1 / 100 + r * 3 / 10, 0],
       normalizeRow [1 / 100, 1 / 5 + r * 3 / 10,
         max 0 (max 0 (3 / 5 - 12 * e / 25 - r * 3 / 20) - r * 3 / 10),
         max 0 (9 / 50 + 12 * e / 25 - r * 3 / 20), 1 / 100 + r * 3 / 10],
       normalizeRow [0, 1 / 20, 1 / 5 + r * 3 / 10,
         max 0 (3 / 5 - 12 * e / 25 - r * 3 / 10), 3 / 20 + 12 * e / 25],
       if a then [0, 0, 0, 0, 1]
       else normalizeRow [0, 0, 1 / 10, 2 / 5 + r * 3 / 10, max 0 (1 / 2 - r * 3 / 10)]] ! i ! j
         * [1000, 890, 719, 503] ! j) \<le> 247 / 250 * [1000, 890, 719, 503] ! i"
    proof cases
      case 1 with r0 show ?thesis by simp
    next
      case 2 with r1 show ?thesis by simp
    next
      case 3 with r2 show ?thesis by simp
    next
      case 4 with r3 show ?thesis by simp
    qed
  qed
qed

lemma parametric_contraction_high:
  assumes "0 \<le> e" "e \<le> 1" "1 / 10 \<le> r" "r \<le> 1"
  shows "\<forall>i<4. (\<Sum>j<4. generateParametricMatrix \<lparr>effort = e, risk = r, isAbsorbing = a\<rparr> ! i ! j
                     * [1000, 909, 748, 614] ! j)
               \<le> 123 / 125 * [1000, 909, 748, 614] ! i"
proof -
  have y: "0 \<le> r * 3 / 10" using assms(3) by simp
  have r0: "(\<Sum>j<4. normalizeRow [max 0 (9 / 10 - 18 * e / 25 - r * 3 / 20),
         max 0 (9 / 100 + 18 * e / 25 - r * 3 / 20), 1 / 100 + r * 3 / 10, 0, 0] ! j
         * [1000, 909, 748, 614] ! j) \<le> 123 / 125 * 1000"
    using assms by (intro normalizeRow_weighted) (auto simp: max_def)
  have r1: "(\<Sum>j<4. normalizeRow [3 / 20 + r * 3 / 10,
         max 0 (max 0 (7 / 10 - 14 * e / 25 - r * 3 / 20) - r * 3 / 10),
         max 0 (7 / 50 + 14 * e / 25 - r * 3 / 20), 1 / 100 + r * 3 / 10, 0] ! j
         * [1000, 909, 748, 614] ! j) \<le> 123 / 125 * 909"
    unfolding clamp_twice [OF y] using assms by (intro normalizeRow_weighted) (auto simp: max_def)
  have r2: "(\<Sum>j<4. normalizeRow [1 / 100, 1 / 5 + r * 3 / 10,
         max 0 (max 0 (3 / 5 - 12 * e / 25 - r * 3 / 20) - r * 3 / 10),
         max 0 (9 / 50 + 12 * e / 25 - r * 3 / 20), 1 / 100 + r * 3 / 10] ! j
         * [1000, 909, 748, 614] ! j) \<le> 123 / 125 * 748"
    unfolding clamp_twice [OF y] using assms by (intro normalizeRow_weighted) (auto simp: max_def)
  have r3: "(\<Sum>j<4. normalizeRow [0, 1 / 20, 1 / 5 + r * 3 / 10,
         max 0 (3 / 5 - 12 * e / 25 - r * 3 / 10), 3 / 20 + 12 * e / 25] ! j
         * [1000, 909, 748, 614] ! j) \<le> 123 / 125 * 614"
    using assms by (intro normalizeRow_weighted) (auto simp: max_def)
  show ?thesis
    unfolding generateParametricMatrix_rows
  proof (intro allI impI)
    fix i :: nat assume "i < 4"
    then consider "i = 0" | "i = 1" | "i = 2" | "i = 3" by linarith
    then show "(\<Sum>j<4. [normalizeRow [max 0 (9 / 10 - 18 * e / 25 - r * 3 / 20),
         max 0 (9 / 100 + 18 * e / 25 - r * 3 / 20), 1 / 100 + r * 3 / 10, 0, 0],
       normalizeRow [3 / 20 + r * 3 / 10,
         max 0 (max 0 (7 / 10 - 14 * e / 25 - r * 3 / 20) - r * 3 / 10),
         max 0 (7 / 50 + 14 * e / 25 - r * 3 / 20), 1 / 100 + r * 3 / 10, 0],
       normalizeRow [1 / 100, 1 / 5 + r * 3 / 10,
         max 0 (max 0 (3 / 5 - 12 * e / 25 - r * 3 / 20) - r * 3 / 10),
         max 0 (9 / 50 + 12 * e / 25 - r * 3 / 20), 1 / 100 + r * 3 / 10],
       normalizeRow [0, 1 / 20, 1 / 5 + r * 3 / 10,
         max 0 (3 / 5 - 12 * e / 25 - r * 3 / 10), 3 / 20 + 12 * e / 25],
       if a then [0, 0, 0, 0, 1]
       else normalizeRow [0, 0, 1 / 10, 2 / 5 + r * 3 / 10, max 0 (1 / 2 - r * 3 / 10)]] ! i ! j
         * [1000, 909, 748, 614] ! j) \<le> 123 / 125 * [1000, 909, 748, 614] ! i"
    proof cases
      case 1 with r0 show ?thesis by simp
    next
      case 2 with r1 show ?thesis by simp
    next
      case 3 with r2 show ?thesis by simp
    next
      case 4 with r3 show ?thesis by simp
    qed
  qed
qed

lemma all_less_4: "(\<forall>i<(4::nat). P i) \<longleftrightarrow> P 0 \<and> P 1 \<and> P 2 \<and> P 3"
proof -
  have "i < 4 \<longleftrightarrow> i = 0 \<or> i = 1 \<or> i = 2 \<or> i = 3" for i :: nat
    by linarith
  then show ?thesis by auto
qed

section \<open>The top-state mass after 500 steps\<close>

lemma pow_247_250_500: "((247::real) / 250) ^ 500 \<le> 503 / 200000"
proof -
  have a: "((247::real) / 250) ^ 10 \<le> 887 / 1000"
    by (simp add: power_divide)
  have b: "((887::real) / 1000) ^ 10 \<le> 603 / 2000"
    by (simp add: power_divide)
  have c: "((603::real) / 2000) ^ 5 \<le> 503 / 200000"
    by (simp add: power_divide)
  have "((247::real) / 250) ^ 500 = ((((247::real) / 250) ^ 10) ^ 10) ^ 5"
    by (simp add: power_mult [symmetric])
  also have "\<dots> \<le> ((887 / 1000) ^ 10) ^ 5"
    by (intro power_mono a) simp_all
  also have "\<dots> \<le> (603 / 2000) ^ 5"
    by (intro power_mono b) simp_all
  also note c
  finally show ?thesis .
qed

lemma pow_123_125_500: "((123::real) / 125) ^ 500 \<le> 614 / 200000"
proof -
  have a: "((123::real) / 125) ^ 10 \<le> 213 / 250"
    by (simp add: power_divide)
  have b: "((213::real) / 250) ^ 10 \<le> 101 / 500"
    by (simp add: power_divide)
  have c: "((101::real) / 500) ^ 5 \<le> 614 / 200000"
    by (simp add: power_divide)
  have "((123::real) / 125) ^ 500 = ((((123::real) / 125) ^ 10) ^ 10) ^ 5"
    by (simp add: power_mult [symmetric])
  also have "\<dots> \<le> ((213 / 250) ^ 10) ^ 5"
    by (intro power_mono a) simp_all
  also have "\<dots> \<le> (101 / 500) ^ 5"
    by (intro power_mono b) simp_all
  also note c
  finally show ?thesis .
qed

lemma weightedMass_step:
  assumes len: "length v = 5" and nn: "\<forall>x\<in>set v. 0 \<le> x"
    and top: "\<forall>j<4. P ! 4 ! j = 0"
    and sup: "\<forall>i<4. (\<Sum>j<4. P ! i ! j * w ! j) \<le> lam * w ! i"
  shows "weightedMass w (multiplyVectorMatrix v P) \<le> lam * weightedMass w v"
proof -
  have vnn: "0 \<le> v ! i" if "i < 5" for i
    using nn len that by simp
  have "weightedMass w (multiplyVectorMatrix v P) = (\<Sum>j<4. w ! j * (\<Sum>i<5. v ! i * P ! i ! j))"
    unfolding weightedMass_def by (intro sum.cong refl) (simp add: multiplyVectorMatrix_nth len)
  also have "\<dots> = (\<Sum>j<4. \<Sum>i<5. v ! i * (P ! i ! j * w ! j))"
    by (simp add: sum_distrib_left algebra_simps)
  also have "\<dots> = (\<Sum>i<5. \<Sum>j<4. v ! i * (P ! i ! j * w ! j))"
    by (rule sum.swap)
  also have "\<dots> = (\<Sum>i<5. v ! i * (\<Sum>j<4. P ! i ! j * w ! j))"
    by (simp add: sum_distrib_left)
  also have "\<dots> = (\<Sum>i<4. v ! i * (\<Sum>j<4. P ! i ! j * w ! j)) + v ! 4 * (\<Sum>j<4. P ! 4 ! j * w ! j)"
    by (simp add: sum_lessThan_5 sum_lessThan_4 del: sum.lessThan_Suc)
  also have "(\<Sum>j<4. P ! 4 ! j * w ! j) = 0"
    using top by simp
  also have "(\<Sum>i<4. v ! i * (\<Sum>j<4. P ! i ! j * w ! j)) + v ! 4 * 0
      \<le> (\<Sum>i<4. v ! i * (lam * w ! i))"
    using sup vnn by (auto intro!: sum_mono mult_left_mono)
  also have "\<dots> = lam * weightedMass w v"
    by (simp add: weightedMass_def sum_distrib_left algebra_simps)
  finally show ?thesis by simp
qed

lemma weightedMass_distAt:
  assumes rs: "row_stochastic 5 P" and top: "\<forall>j<4. P ! 4 ! j = 0"
    and sup: "\<forall>i<4. (\<Sum>j<4. P ! i ! j * w ! j) \<le> lam * w ! i"
    and lam: "0 \<le> lam"
  shows "weightedMass w (distAt P t) \<le> lam ^ t * w ! 0"
proof (induction t)
  case 0
  show ?case by (simp add: distAt_def weightedMass_def sum_lessThan_4)
next
  case (Suc t)
  have "prob_vector (distAt P t)" "length (distAt P t) = 5"
    using distAt_prob [OF rs, of t] by simp_all
  then have "weightedMass w (distAt P (Suc t)) \<le> lam * weightedMass w (distAt P t)"
    unfolding distAt_Suc by (intro weightedMass_step top sup) (simp_all add: prob_vector_def)
  also have "\<dots> \<le> lam * (lam ^ t * w ! 0)"
    using Suc.IH lam by (rule mult_left_mono)
  finally show ?case by simp
qed

lemma transient_le_weightedMass:
  assumes "prob_vector v" and "length v = 5" and "\<forall>i<4. c \<le> w ! i"
  shows "c * (1 - v ! 4) \<le> weightedMass w v"
proof -
  from assms(2) obtain a b c' d e where v: "v = [a, b, c', d, e]" by (rule length5_cases)
  with assms(1) have nn: "0 \<le> a" "0 \<le> b" "0 \<le> c'" "0 \<le> d" and s: "1 - e = a + b + c' + d"
    by (simp_all add: prob_vector_def)
  from assms(3) have "c \<le> w ! 0" "c \<le> w ! 1" "c \<le> w ! 2" "c \<le> w ! 3" by simp_all
  with nn have "c * a \<le> w ! 0 * a" "c * b \<le> w ! 1 * b" "c * c' \<le> w ! 2 * c'" "c * d \<le> w ! 3 * d"
    by (simp_all add: mult_right_mono)
  then show ?thesis
    unfolding v weightedMass_def sum_lessThan_4 by (simp add: s algebra_simps)
qed

lemma finalDist_top_mass:
  assumes "0 \<le> e" "e \<le> 1" "0 \<le> r" "r \<le> 1"
  shows "1 - 1 / 200 \<le> distAt (generateParametricMatrix \<lparr>effort = e, risk = r, isAbsorbing = True\<rparr>) 500 ! 4"
proof -
  let ?P = "generateParametricMatrix \<lparr>effort = e, risk = r, isAbsorbing = True\<rparr>"
  let ?v = "distAt ?P 500"
  have rs: "row_stochastic 5 ?P"
    by (rule generateParametricMatrix_stochastic [OF assms(1,3)])
  have top: "\<forall>j<4. ?P ! 4 ! j = 0"
    unfolding generateParametricMatrix_rows by (simp add: nth_Cons')
  note pv = distAt_prob [OF rs, of 500]
  show ?thesis
  proof (cases "r \<le> 1 / 10")
    case True
    let ?w = "[1000, 890, 719, 503] :: Vector"
    have "503 * (1 - ?v ! 4) \<le> weightedMass ?w ?v"
      using pv by (intro transient_le_weightedMass) (simp_all add: nth_Cons')
    also have "\<dots> \<le> (247 / 250) ^ 500 * ?w ! 0"
      by (intro weightedMass_distAt rs top parametric_contraction_low assms True) simp
    also have "\<dots> \<le> 503 / 200000 * 1000"
      using pow_247_250_500 by simp
    finally show ?thesis by simp
  next
    case False
    then have r: "1 / 10 \<le> r" by simp
    let ?w = "[1000, 909, 748, 614] :: Vector"
    have "614 * (1 - ?v ! 4) \<le> weightedMass ?w ?v"
      using pv by (intro transient_le_weightedMass) (simp_all add: nth_Cons')
    also have "\<dots> \<le> (123 / 125) ^ 500 * ?w ! 0"
      by (intro weightedMass_distAt rs top parametric_contraction_high assms r) simp
    also have "\<dots> \<le> 614 / 200000 * 1000"
      using pow_123_125_500 by simp
    finally show ?thesis by simp
  qed
qed

text \<open>
  Claim C4, amended. For every \<open>effort\<close> and \<open>risk\<close> in \<open>[0, 1]\<close>, \<open>runPathSimulation\<close> with
  the absorbing flag set returns as \<open>finalDist\<close> the one-hot vector at the bottom state
  advanced 500 steps through the generated matrix. This vector is a probability distribution
  over the five states that places at least \<open>0.995\<close> on the top state: it is within
  \<open>5e-3\<close> of the limit. It is not within \<open>1e-6\<close> for every \<open>effort\<close> and \<open>risk\<close>: at
  \<open>effort = risk = 0\<close> the top-state probability is below \<open>1 - 1e-5\<close>.
\<close>

theorem finalDist_absorbing_top_mass:
  assumes "isAbsorbing config"
    and "0 \<le> effort config" and "effort config \<le> 1"
    and "0 \<le> risk config" and "risk config \<le> 1"
  shows "finalDist (runPathSimulation config) = distAt (matrix (runPathSimulation config)) 500
       \<and> length (finalDist (runPathSimulation config)) = 5
       \<and> prob_vector (finalDist (runPathSimulation config))
       \<and> 1 - 5 / 10 ^ 3 \<le> finalDist (runPathSimulation config) ! 4
       \<and> finalDist (runPathSimulation config) ! 4 \<le> 1
       \<and> finalDist (runPathSimulation \<lparr>effort = 0, risk = 0, isAbsorbing = True\<rparr>) ! 4
            < 1 - 1 / 10 ^ 5"
proof -
  obtain e r a where c: "config = \<lparr>effort = e, risk = r, isAbsorbing = a\<rparr>"
    by (cases config) auto
  with assms have a: "a = True" and e: "0 \<le> e" "e \<le> 1" and r: "0 \<le> r" "r \<le> 1" by simp_all
  let ?P = "generateParametricMatrix \<lparr>effort = e, risk = r, isAbsorbing = True\<rparr>"
  have rs: "row_stochastic 5 ?P"
    by (rule generateParametricMatrix_stochastic [OF e(1) r(1)])
  have fd: "finalDist (runPathSimulation config) = distAt ?P 500"
    and mat: "matrix (runPathSimulation config) = ?P"
    by (simp_all add: runPathSimulation_fields c a)
  note pv = distAt_prob [OF rs, of 500]
  have "1 - 5 / 10 ^ 3 \<le> distAt ?P 500 ! 4"
    using finalDist_top_mass [OF e r] by simp
  with pv prob_vector_top_le_1 [of "distAt ?P 500"] finalDist_locked_baseline
  show ?thesis
    unfolding fd mat by simp
qed

theorem finalDist_absorbing_top_mass_witness:
  "isAbsorbing \<lparr>effort = 3 / 10, risk = 1 / 10, isAbsorbing = True\<rparr>
   \<and> 0 \<le> effort \<lparr>effort = 3 / 10, risk = 1 / 10, isAbsorbing = True\<rparr>
   \<and> effort \<lparr>effort = 3 / 10, risk = 1 / 10, isAbsorbing = True\<rparr> \<le> 1
   \<and> 0 \<le> risk \<lparr>effort = 3 / 10, risk = 1 / 10, isAbsorbing = True\<rparr>
   \<and> risk \<lparr>effort = 3 / 10, risk = 1 / 10, isAbsorbing = True\<rparr> \<le> 1
   \<and> prob_vector (finalDist (runPathSimulation \<lparr>effort = 3 / 10, risk = 1 / 10, isAbsorbing = True\<rparr>))
   \<and> 1 - 5 / 10 ^ 3
        \<le> finalDist (runPathSimulation \<lparr>effort = 3 / 10, risk = 1 / 10, isAbsorbing = True\<rparr>) ! 4"
proof -
  have h: "isAbsorbing \<lparr>effort = 3 / 10, risk = 1 / 10, isAbsorbing = True\<rparr>"
    "0 \<le> effort \<lparr>effort = 3 / 10, risk = 1 / 10, isAbsorbing = True\<rparr>"
    "effort \<lparr>effort = 3 / 10, risk = 1 / 10, isAbsorbing = True\<rparr> \<le> 1"
    "0 \<le> risk \<lparr>effort = 3 / 10, risk = 1 / 10, isAbsorbing = True\<rparr>"
    "risk \<lparr>effort = 3 / 10, risk = 1 / 10, isAbsorbing = True\<rparr> \<le> 1"
    by simp_all
  from finalDist_absorbing_top_mass [OF h] h show ?thesis
    by blast
qed

text \<open>
  The claim as stated fails at \<open>effort = 0\<close>, \<open>risk = 0\<close>: after 500 steps more than \<open>1e-6\<close>
  of the mass is still on the transient states.
\<close>

theorem finalDist_absorbing_counterexample:
  "\<not> (1 - 1 / 10 ^ 6
        \<le> finalDist (runPathSimulation \<lparr>effort = 0, risk = 0, isAbsorbing = True\<rparr>) ! 4)"
  using finalDist_locked_baseline by simp

section \<open>Elimination on systems bounded below\<close>

text \<open>
  On a system whose matrix is bounded below by the tolerance, the elimination skips no
  pivot: at column \<open>i\<close> the candidates of the pivot search are the image of a vector with
  entry 1 at \<open>i\<close>, up to a combination of absolute sum at most 1.
\<close>

lemma foldl_argmax:
  fixes f :: "nat \<Rightarrow> real"
  shows "\<forall>k\<in>insert start (set xs). f k \<le> f (foldl (\<lambda>p j. if f j > f p then j else p) start xs)"
proof (induction xs arbitrary: start)
  case Nil
  show ?case by simp
next
  case (Cons a xs)
  define q where "q = (if f a > f start then a else start)"
  define res where "res = foldl (\<lambda>p j. if f j > f p then j else p) q xs"
  from Cons [of q] have IH: "\<forall>k\<in>insert q (set xs). f k \<le> f res"
    by (simp add: res_def)
  then have "f q \<le> f res" by simp
  moreover have "f start \<le> f q" "f a \<le> f q" by (simp_all add: q_def)
  ultimately have "f start \<le> f res" "f a \<le> f res" by linarith+
  moreover have "foldl (\<lambda>p j. if f j > f p then j else p) start (a # xs) = res"
    by (simp add: res_def q_def)
  ultimately show ?case using IH by simp
qed

lemma findPivot_max:
  assumes "i \<le> q" and "q < n"
  shows "\<bar>M ! q ! i\<bar> \<le> \<bar>M ! findPivot M n i ! i\<bar>"
proof -
  have "q \<in> insert i (set [i + 1..<n])" using assms by auto
  with foldl_argmax [where f = "\<lambda>j. \<bar>M ! j ! i\<bar>" and start = i and xs = "[i + 1..<n]"] show ?thesis
    unfolding findPivot_def by blast
qed

lemma combines_init:
  assumes "length A' = n" and "\<forall>row\<in>set A'. length row = n"
  shows "combines n 0 A' (augment A' b)"
  unfolding combines_def
proof (intro allI impI)
  fix r assume r: "r < n"
  define c :: "nat \<Rightarrow> real" where "c k = (if k = r then 1 else 0)" for k
  note aug = augment_entries [OF assms, of b]
  have "(\<Sum>k<n. c k * augment A' b ! k ! j) = A' ! r ! j" if "j < n" for j
  proof -
    have "(\<Sum>k<n. c k * augment A' b ! k ! j) = (\<Sum>k<n. if k = r then augment A' b ! r ! j else 0)"
      by (intro sum.cong refl) (simp add: c_def)
    also have "\<dots> = augment A' b ! r ! j" using r by simp
    finally show ?thesis using aug(2) r that by simp
  qed
  moreover have "(\<Sum>k = 0..<n. \<bar>c k\<bar>) \<le> 1"
  proof -
    have "(\<Sum>k = 0..<n. \<bar>c k\<bar>) = (\<Sum>k = 0..<n. if k = r then 1 else 0)"
      by (intro sum.cong refl) (simp add: c_def)
    also have "\<dots> = 1" using r by simp
    finally show ?thesis by simp
  qed
  ultimately show "\<exists>c :: nat \<Rightarrow> real. (\<forall>j<n. A' ! r ! j = (\<Sum>k<n. c k * augment A' b ! k ! j))
      \<and> (\<Sum>k = 0..<n. \<bar>c k\<bar>) \<le> 1"
    by (intro exI [of _ c]) simp
qed

lemma combines_swap:
  assumes len: "length M = n" and i: "i < n" and p: "i \<le> p" "p < n"
    and comb: "combines n i A' M"
  shows "combines n i A' (swapRows M i p)"
  unfolding combines_def
proof (intro allI impI)
  fix r assume r: "r < n"
  from comb r obtain c :: "nat \<Rightarrow> real"
    where c: "\<forall>j<n. A' ! r ! j = (\<Sum>k<n. c k * M ! k ! j)" and b: "(\<Sum>k = i..<n. \<bar>c k\<bar>) \<le> 1"
    unfolding combines_def by blast
  define sg where "sg k = (if k = i then p else if k = p then i else k)" for k
  have inv: "sg (sg k) = k" for k by (simp add: sg_def)
  have rng: "sg k < n" if "k < n" for k using that i p by (simp add: sg_def)
  have rng': "sg k \<in> {i..<n}" if "k \<in> {i..<n}" for k using that i p by (simp add: sg_def)
  have row: "swapRows M i p ! k = M ! sg k" if "k < n" for k
    using swapRows_rows(2) [OF len i p(2)] that by (auto simp: sg_def)
  have "(\<Sum>k<n. c (sg k) * swapRows M i p ! k ! j) = (\<Sum>k<n. c k * M ! k ! j)" for j
  proof -
    have "(\<Sum>k<n. c (sg k) * swapRows M i p ! k ! j) = (\<Sum>k<n. c (sg k) * M ! sg k ! j)"
      by (intro sum.cong refl) (simp add: row)
    also have "\<dots> = (\<Sum>k<n. c k * M ! k ! j)"
      by (rule sum.reindex_bij_witness [of _ sg sg]) (auto simp: inv rng)
    finally show ?thesis .
  qed
  moreover have "(\<Sum>k = i..<n. \<bar>c (sg k)\<bar>) = (\<Sum>k = i..<n. \<bar>c k\<bar>)"
    by (rule sum.reindex_bij_witness [of _ sg sg]) (use rng' in \<open>auto simp: inv\<close>)
  ultimately show "\<exists>c :: nat \<Rightarrow> real. (\<forall>j<n. A' ! r ! j = (\<Sum>k<n. c k * swapRows M i p ! k ! j))
      \<and> (\<Sum>k = i..<n. \<bar>c k\<bar>) \<le> 1"
    using c b by (intro exI [of _ "\<lambda>k. c (sg k)"]) simp
qed

lemma combines_pivot:
  assumes ws: "wellShaped n M1" and i: "i < n" and red: "reducedUpTo n i M1"
    and pv: "M1 ! i ! i \<noteq> 0" and comb: "combines n i A' M1"
  shows "combines n (Suc i) A'
           (eliminateRows n i (M1[i := updRange (\<lambda>j x. x / (M1 ! i ! i)) i (n + 1) (M1 ! i)]))"
proof -
  define R where "R = eliminateRows n i (M1[i := updRange (\<lambda>j x. x / (M1 ! i ! i)) i (n + 1) (M1 ! i)])"
  note ent = pivotStep_entries [OF ws i red pv, folded R_def]
  have "\<exists>c :: nat \<Rightarrow> real. (\<forall>j<n. A' ! r ! j = (\<Sum>k<n. c k * R ! k ! j))
      \<and> (\<Sum>k = Suc i..<n. \<bar>c k\<bar>) \<le> 1" if r: "r < n" for r
  proof -
    from comb r obtain c :: "nat \<Rightarrow> real"
      where c: "\<forall>j<n. A' ! r ! j = (\<Sum>k<n. c k * M1 ! k ! j)" and b: "(\<Sum>k = i..<n. \<bar>c k\<bar>) \<le> 1"
      unfolding combines_def by blast
    define d where "d = c i * M1 ! i ! i + (\<Sum>k\<in>{..<n} - {i}. c k * M1 ! k ! i)"
    define c' where "c' k = (if k = i then d else c k)" for k
    have split: "(\<Sum>k<n. g k) = g i + (\<Sum>k\<in>{..<n} - {i}. g k)" for g :: "nat \<Rightarrow> real"
      using i by (simp add: sum.remove [of "{..<n}" i])
    have same: "(\<Sum>k<n. c' k * R ! k ! j) = (\<Sum>k<n. c k * M1 ! k ! j)" if j: "j < n" for j
    proof -
      have jn: "j \<le> n" using j by simp
      have e1: "M1 ! i ! j = R ! i ! j * M1 ! i ! i" using ent(2) jn by simp
      have e2: "M1 ! k ! j = R ! k ! j + M1 ! k ! i * R ! i ! j" if "k < n" "k \<noteq> i" for k
        using ent(3) that jn by simp
      have "(\<Sum>k\<in>{..<n} - {i}. c k * M1 ! k ! j)
          = (\<Sum>k\<in>{..<n} - {i}. c k * R ! k ! j + (c k * M1 ! k ! i) * R ! i ! j)"
        by (intro sum.cong refl) (simp add: e2 algebra_simps)
      also have "\<dots> = (\<Sum>k\<in>{..<n} - {i}. c k * R ! k ! j)
          + (\<Sum>k\<in>{..<n} - {i}. c k * M1 ! k ! i) * R ! i ! j"
        by (simp add: sum.distrib sum_distrib_right)
      finally have "(\<Sum>k<n. c k * M1 ! k ! j) = d * R ! i ! j + (\<Sum>k\<in>{..<n} - {i}. c k * R ! k ! j)"
        unfolding split [of "\<lambda>k. c k * M1 ! k ! j"] by (simp add: d_def e1 algebra_simps)
      moreover have "(\<Sum>k\<in>{..<n} - {i}. c' k * R ! k ! j) = (\<Sum>k\<in>{..<n} - {i}. c k * R ! k ! j)"
        by (intro sum.cong refl) (simp add: c'_def)
      then have "(\<Sum>k<n. c' k * R ! k ! j) = d * R ! i ! j + (\<Sum>k\<in>{..<n} - {i}. c k * R ! k ! j)"
        unfolding split [of "\<lambda>k. c' k * R ! k ! j"] by (simp add: c'_def)
      ultimately show ?thesis by simp
    qed
    have "(\<Sum>k = Suc i..<n. \<bar>c' k\<bar>) = (\<Sum>k = Suc i..<n. \<bar>c k\<bar>)"
      by (intro sum.cong refl) (simp add: c'_def)
    also have "\<dots> \<le> (\<Sum>k = i..<n. \<bar>c k\<bar>)"
      by (intro sum_mono2) auto
    finally have "(\<Sum>k = Suc i..<n. \<bar>c' k\<bar>) \<le> 1" using b by simp
    with same c show ?thesis by (intro exI [of _ c']) simp
  qed
  then show ?thesis unfolding combines_def R_def by blast
qed

lemma pivot_lower_bound:
  assumes ws: "wellShaped n M" and i: "i < n" and red: "reducedUpTo n i M"
    and comb: "combines n i A' M" and bb: "boundedBelow n A' mu"
  shows "mu \<le> \<bar>swapRows M i (findPivot M n i) ! i ! i\<bar>"
proof -
  define p where "p = findPivot M n i"
  define dl where "dl = \<bar>M ! p ! i\<bar>"
  have len: "length M = n" using ws by (simp add: wellShaped_def)
  have p: "i \<le> p" "p < n" using findPivot_range [OF i, of M] by (simp_all add: p_def)
  have piv: "swapRows M i p ! i ! i = M ! p ! i"
    using swapRows_rows(2) [OF len i p(2)] i by simp
  have mx: "\<bar>M ! k ! i\<bar> \<le> dl" if "i \<le> k" "k < n" for k
    unfolding dl_def p_def by (rule findPivot_max [OF that])
  define x :: "nat \<Rightarrow> real" where "x j = (if j < i then - M ! j ! i else if j = i then 1 else 0)" for j
  have Mx: "(\<Sum>j<n. M ! k ! j * x j) = (if k < i then 0 else M ! k ! i)" if k: "k < n" for k
  proof -
    have "(\<Sum>j<n. M ! k ! j * x j)
        = (\<Sum>j<n. (if j = k then (if k < i then - M ! k ! i else 0) else 0)
                + (if j = i then M ! k ! i else 0))"
    proof (intro sum.cong refl)
      fix j assume "j \<in> {..<n}"
      show "M ! k ! j * x j = (if j = k then (if k < i then - M ! k ! i else 0) else 0)
                + (if j = i then M ! k ! i else 0)"
      proof (cases "j < i")
        case True
        with red k have "M ! k ! j = (if k = j then 1 else 0)" by (simp add: reducedUpTo_def)
        with True show ?thesis by (auto simp: x_def)
      next
        case False
        then show ?thesis by (auto simp: x_def)
      qed
    qed
    also have "\<dots> = (if k < i then - M ! k ! i else 0) + M ! k ! i"
      using k i by (simp add: sum.distrib)
    finally show ?thesis by simp
  qed
  from bb i obtain r where r: "r < n" and low: "mu * \<bar>x i\<bar> \<le> \<bar>\<Sum>j<n. A' ! r ! j * x j\<bar>"
    unfolding boundedBelow_def by blast
  from comb r obtain c :: "nat \<Rightarrow> real"
    where c: "\<forall>j<n. A' ! r ! j = (\<Sum>k<n. c k * M ! k ! j)" and b: "(\<Sum>k = i..<n. \<bar>c k\<bar>) \<le> 1"
    unfolding combines_def by blast
  have "(\<Sum>j<n. A' ! r ! j * x j) = (\<Sum>j<n. \<Sum>k<n. c k * (M ! k ! j * x j))"
    using c by (intro sum.cong refl) (simp add: sum_distrib_right mult.assoc)
  also have "\<dots> = (\<Sum>k<n. \<Sum>j<n. c k * (M ! k ! j * x j))"
    by (rule sum.swap)
  also have "\<dots> = (\<Sum>k<n. c k * (if k < i then 0 else M ! k ! i))"
    by (intro sum.cong refl) (simp add: sum_distrib_left [symmetric] Mx)
  also have "\<dots> = (\<Sum>k = i..<n. c k * M ! k ! i)"
    by (rule sum.mono_neutral_cong_right) auto
  finally have Ax: "(\<Sum>j<n. A' ! r ! j * x j) = (\<Sum>k = i..<n. c k * M ! k ! i)" .
  have "\<bar>\<Sum>k = i..<n. c k * M ! k ! i\<bar> \<le> (\<Sum>k = i..<n. \<bar>c k * M ! k ! i\<bar>)"
    by (rule sum_abs)
  also have "\<dots> \<le> (\<Sum>k = i..<n. \<bar>c k\<bar> * dl)"
    by (intro sum_mono) (simp add: abs_mult mult_left_mono mx)
  also have "\<dots> = (\<Sum>k = i..<n. \<bar>c k\<bar>) * dl"
    by (simp add: sum_distrib_right)
  also have "\<dots> \<le> 1 * dl"
    using b by (intro mult_right_mono) (simp_all add: dl_def)
  finally have "\<bar>\<Sum>j<n. A' ! r ! j * x j\<bar> \<le> dl" unfolding Ax by simp
  with low have "mu \<le> dl" by (simp add: x_def)
  then show ?thesis using piv by (simp add: dl_def p_def)
qed

lemma gaussStep_combines:
  assumes ws: "wellShaped n M" and i: "i < n" and red: "reducedUpTo n i M"
    and piv: "\<not> \<bar>swapRows M i (findPivot M n i) ! i ! i\<bar> < pivotTolerance"
    and comb: "combines n i A' M"
  shows "combines n (Suc i) A' (gaussStep n M i)"
proof -
  define p where "p = findPivot M n i"
  define M1 where "M1 = swapRows M i p"
  have p: "i \<le> p" "p < n" using findPivot_range [OF i, of M] by (simp_all add: p_def)
  have lenM: "length M = n" using ws by (simp add: wellShaped_def)
  have ws1: "wellShaped n M1" unfolding M1_def by (rule swapRows_wellShaped [OF ws i p(2)])
  have red1: "reducedUpTo n i M1" unfolding M1_def by (rule swapRows_reduced [OF lenM i p red])
  have comb1: "combines n i A' M1" unfolding M1_def by (rule combines_swap [OF lenM i p comb])
  have pv: "M1 ! i ! i \<noteq> 0" using piv pivotTolerance_pos by (auto simp: M1_def p_def)
  have step: "gaussStep n M i
      = eliminateRows n i (M1[i := updRange (\<lambda>j x. x / (M1 ! i ! i)) i (n + 1) (M1 ! i)])"
    using piv by (simp add: gaussStep_def Let_def M1_def p_def)
  show ?thesis
    unfolding step by (rule combines_pivot [OF ws1 i red1 pv comb1])
qed

lemma noPivotSkipped_fold:
  assumes "wellShaped n M" and "i \<le> n" and "reducedUpTo n i M" and "combines n i A' M"
    and bb: "boundedBelow n A' mu" and tol: "pivotTolerance \<le> mu"
  shows "noPivotSkipped n M [i..<n]"
  using assms(1-4)
proof (induction "n - i" arbitrary: M i)
  case 0
  then have "i = n" by simp
  then show ?case by simp
next
  case (Suc d)
  then have i: "i < n" and d: "d = n - Suc i" by simp_all
  have upt: "[i..<n] = i # [Suc i..<n]" using i by (simp add: upt_conv_Cons)
  have "mu \<le> \<bar>swapRows M i (findPivot M n i) ! i ! i\<bar>"
    by (rule pivot_lower_bound [OF Suc.prems(1) i Suc.prems(3,4) bb])
  with tol have piv: "\<not> \<bar>swapRows M i (findPivot M n i) ! i ! i\<bar> < pivotTolerance"
    by simp
  note st = gaussStep_invariant(1,2) [OF Suc.prems(1) i Suc.prems(3) piv]
  note cb = gaussStep_combines [OF Suc.prems(1) i Suc.prems(3) piv Suc.prems(4)]
  have "Suc i \<le> n" using i by simp
  from Suc.hyps(1) [OF d st(1) this st(2) cb] piv show ?case
    unfolding upt by simp
qed

lemma noPivotSkipped_boundedBelow:
  assumes len: "length A' = n" and rows: "\<forall>row\<in>set A'. length row = n"
    and bb: "boundedBelow n A' mu" and tol: "pivotTolerance \<le> mu"
  shows "noPivotSkipped n (augment A' b) [0..<n]"
proof -
  have "reducedUpTo n 0 (augment A' b)" by (simp add: reducedUpTo_def)
  from noPivotSkipped_fold [OF augment_entries(1) [OF len rows] le0 this combines_init [OF len rows] bb tol]
  show ?thesis .
qed

lemma boundedBelow_mono:
  assumes "boundedBelow n A' mu" and "mu' \<le> mu"
  shows "boundedBelow n A' mu'"
  unfolding boundedBelow_def
proof (intro allI impI)
  fix x :: "nat \<Rightarrow> real" and i assume "i < n"
  with assms(1) obtain r where r: "r < n" "mu * \<bar>x i\<bar> \<le> \<bar>\<Sum>j<n. A' ! r ! j * x j\<bar>"
    unfolding boundedBelow_def by blast
  have "mu' * \<bar>x i\<bar> \<le> mu * \<bar>x i\<bar>"
    using assms(2) by (intro mult_right_mono) simp_all
  with r show "\<exists>r<n. mu' * \<bar>x i\<bar> \<le> \<bar>\<Sum>j<n. A' ! r ! j * x j\<bar>"
    by (intro exI [of _ r]) simp
qed

lemma boundedBelow_unique:
  assumes bb: "boundedBelow n A' mu" and mu: "0 < mu"
    and eq: "\<forall>r<n. (\<Sum>j<n. A' ! r ! j * x j) = (\<Sum>j<n. A' ! r ! j * y j)"
  shows "\<forall>i<n. x i = (y i :: real)"
proof (intro allI impI)
  fix i assume i: "i < n"
  define z where "z j = x j - y j" for j
  from bb i obtain r where r: "r < n"
    and low: "mu * \<bar>z i\<bar> \<le> \<bar>\<Sum>j<n. A' ! r ! j * z j\<bar>"
    unfolding boundedBelow_def by blast
  have "(\<Sum>j<n. A' ! r ! j * z j) = 0"
    using eq r by (simp add: z_def right_diff_distrib sum_subtractf)
  with low have "mu * \<bar>z i\<bar> \<le> 0" by simp
  with mu have "\<bar>z i\<bar> \<le> 0" by (simp add: mult_le_0_iff)
  then show "x i = y i" by (simp add: z_def)
qed

lemma dominant_boundedBelow:
  fixes w :: "nat \<Rightarrow> real"
  assumes ent: "\<forall>r<n. \<forall>j<n. A' ! r ! j = (if r = j then 1 else 0) - Q r j"
    and nn: "\<forall>r<n. \<forall>j<n. 0 \<le> Q r j"
    and sup: "\<forall>r<n. (\<Sum>j<n. Q r j * w j) \<le> lam * w r"
    and w: "\<forall>r<n. lo \<le> w r \<and> w r \<le> hi" and lo: "0 < lo" and lam: "lam \<le> 1"
  shows "boundedBelow n A' ((1 - lam) * (lo / hi))"
  unfolding boundedBelow_def
proof (intro allI impI)
  fix x :: "nat \<Rightarrow> real" and i assume i: "i < n"
  define f where "f q = \<bar>x q\<bar> / w q" for q
  have wpos: "0 < w q" if "q < n" for q
  proof -
    from w that have "lo \<le> w q" by simp
    with lo show ?thesis by linarith
  qed
  have hi: "0 < hi"
  proof -
    from w i have "lo \<le> w i" "w i \<le> hi" by simp_all
    with lo show ?thesis by linarith
  qed
  have fnn: "0 \<le> f q" if "q < n" for q
    using wpos [OF that] by (simp add: f_def)
  have xq: "\<bar>x q\<bar> = w q * f q" if "q < n" for q
    using wpos [OF that] by (simp add: f_def)
  have "\<exists>r<n. \<forall>q<n. f q \<le> f r"
  proof -
    have "finite (f ` {..<n})" "f ` {..<n} \<noteq> {}" using i by auto
    then have "Max (f ` {..<n}) \<in> f ` {..<n}" by (rule Max_in)
    then obtain r where "r < n" "f r = Max (f ` {..<n})" by auto
    moreover have "f q \<le> Max (f ` {..<n})" if "q < n" for q
      using that by (intro Max_ge) auto
    ultimately show ?thesis by auto
  qed
  then obtain r where r: "r < n" and mx: "\<forall>q<n. f q \<le> f r" by blast
  have Ax: "(\<Sum>j<n. A' ! r ! j * x j) = x r - (\<Sum>j<n. Q r j * x j)"
  proof -
    have "A' ! r ! j * x j = (if j = r then x r else 0) - Q r j * x j" if "j < n" for j
    proof -
      from ent r that have "A' ! r ! j = (if r = j then 1 else 0) - Q r j" by simp
      then show ?thesis by (cases "j = r") (simp_all add: left_diff_distrib)
    qed
    then have "(\<Sum>j<n. A' ! r ! j * x j) = (\<Sum>j<n. (if j = r then x r else 0) - Q r j * x j)"
      by (intro sum.cong refl) simp
    also have "\<dots> = x r - (\<Sum>j<n. Q r j * x j)"
      using r by (simp add: sum_subtractf)
    finally show ?thesis .
  qed
  have Qx: "\<bar>\<Sum>j<n. Q r j * x j\<bar> \<le> lam * \<bar>x r\<bar>"
  proof -
    have "\<bar>\<Sum>j<n. Q r j * x j\<bar> \<le> (\<Sum>j<n. \<bar>Q r j * x j\<bar>)"
      by (rule sum_abs)
    also have "\<dots> = (\<Sum>j<n. Q r j * (w j * f j))"
      using nn r by (intro sum.cong refl) (simp add: abs_mult xq)
    also have "\<dots> \<le> (\<Sum>j<n. Q r j * (w j * f r))"
    proof (intro sum_mono)
      fix j assume "j \<in> {..<n}"
      then have j: "j < n" by simp
      have "w j * f j \<le> w j * f r"
        using mx j wpos [OF j] by (intro mult_left_mono) simp_all
      moreover have "0 \<le> Q r j" using nn r j by simp
      ultimately show "Q r j * (w j * f j) \<le> Q r j * (w j * f r)"
        by (rule mult_left_mono)
    qed
    also have "\<dots> = (\<Sum>j<n. Q r j * w j) * f r"
      by (simp add: sum_distrib_right mult.assoc)
    also have "\<dots> \<le> (lam * w r) * f r"
      using sup r fnn [OF r] by (intro mult_right_mono) simp_all
    also have "\<dots> = lam * \<bar>x r\<bar>"
      by (simp add: xq [OF r])
    finally show ?thesis .
  qed
  have low: "(1 - lam) * \<bar>x r\<bar> \<le> \<bar>\<Sum>j<n. A' ! r ! j * x j\<bar>"
  proof -
    have "(1 - lam) * \<bar>x r\<bar> = \<bar>x r\<bar> - lam * \<bar>x r\<bar>"
      by (simp add: left_diff_distrib)
    also have "\<dots> \<le> \<bar>x r\<bar> - \<bar>\<Sum>j<n. Q r j * x j\<bar>"
      using Qx by simp
    also have "\<dots> \<le> \<bar>x r - (\<Sum>j<n. Q r j * x j)\<bar>"
      by (rule abs_triangle_ineq2)
    finally show ?thesis unfolding Ax .
  qed
  have "lo * \<bar>x i\<bar> \<le> hi * \<bar>x r\<bar>"
  proof -
    have "lo * \<bar>x i\<bar> = lo * (w i * f i)" by (simp add: xq [OF i])
    also have "\<dots> \<le> lo * (hi * f r)"
    proof (intro mult_left_mono mult_mono)
      show "w i \<le> hi" using w i by simp
      show "f i \<le> f r" using mx i by simp
      show "0 \<le> hi" using hi by simp
      show "0 \<le> f i" by (rule fnn [OF i])
      show "0 \<le> lo" using lo by simp
    qed
    also have "\<dots> = hi * (lo * f r)" by simp
    also have "\<dots> \<le> hi * (w r * f r)"
    proof (intro mult_left_mono mult_right_mono)
      show "lo \<le> w r" using w r by simp
      show "0 \<le> f r" by (rule fnn [OF r])
      show "0 \<le> hi" using hi by simp
    qed
    finally show ?thesis by (simp add: xq [OF r])
  qed
  then have "lo * \<bar>x i\<bar> / hi \<le> \<bar>x r\<bar>"
    using hi by (simp add: pos_divide_le_eq mult.commute [of _ hi])
  then have "lo / hi * \<bar>x i\<bar> \<le> \<bar>x r\<bar>"
    by simp
  then have "(1 - lam) * (lo / hi * \<bar>x i\<bar>) \<le> (1 - lam) * \<bar>x r\<bar>"
    using lam by (intro mult_left_mono) simp_all
  with low r show "\<exists>r<n. (1 - lam) * (lo / hi) * \<bar>x i\<bar> \<le> \<bar>\<Sum>j<n. A' ! r ! j * x j\<bar>"
    by (intro exI [of _ r]) (simp add: mult.assoc)
qed

section \<open>Expected steps to absorption\<close>

lemma parametric_top_cell:
  assumes "0 \<le> r" and "r \<le> 1"
  shows "generateParametricMatrix \<lparr>effort = e, risk = r, isAbsorbing = a\<rparr> ! 4 ! 4
       = (if a then 1 else 1 / 2 - r * 3 / 10)"
proof -
  have "normalizeRow [0, 0, 1 / 10, 2 / 5 + r * 3 / 10, max 0 (1 / 2 - r * 3 / 10)]
      = [0, 0, 1 / 10, 2 / 5 + r * 3 / 10, 1 / 2 - r * 3 / 10]"
    using assms by (simp add: normalizeRow_def max_def)
  then show ?thesis
    unfolding generateParametricMatrix_rows by simp
qed

lemma fundamentalSystem_entries:
  assumes "\<forall>i<4. 4 \<le> length (m ! i)"
  shows "\<forall>i<4. \<forall>j<4. fundamentalSystem m ! i ! j = (if i = j then 1 else 0) - m ! i ! j"
  using assms by (simp add: fundamentalSystem_def)

lemma fundamentalSystem_shape:
  "length (fundamentalSystem m) = 4" "\<forall>row\<in>set (fundamentalSystem m). length row = 4"
  by (auto simp: fundamentalSystem_def)

lemma calculateTimeToAbsorption_cases:
  "calculateTimeToAbsorption m =
     (if m ! 4 ! 4 < 99 / 100 then None
      else Some (solveLinearSystem (fundamentalSystem m) (replicate 4 1) ! 0))"
  by (simp add: calculateTimeToAbsorption_def Let_def)

lemma parametric_boundedBelow:
  assumes "0 \<le> e" "e \<le> 1" "0 \<le> r" "r \<le> 1"
  shows "boundedBelow 4
           (fundamentalSystem (generateParametricMatrix \<lparr>effort = e, risk = r, isAbsorbing = a\<rparr>))
           (3 / 500)"
proof -
  let ?m = "generateParametricMatrix \<lparr>effort = e, risk = r, isAbsorbing = a\<rparr>"
  have rs: "row_stochastic 5 ?m"
    by (rule generateParametricMatrix_stochastic [OF assms(1,3)])
  then have "\<forall>i<4. 4 \<le> length (?m ! i)"
    by (simp add: row_stochastic_def)
  note ent = fundamentalSystem_entries [OF this]
  have nn: "\<forall>i<4. \<forall>j<4. 0 \<le> ?m ! i ! j"
    using row_stochastic_nonneg [OF rs] by simp
  show ?thesis
  proof (cases "r \<le> 1 / 10")
    case True
    have "boundedBelow 4 (fundamentalSystem ?m) ((1 - 247 / 250) * (503 / 1000))"
    proof (rule dominant_boundedBelow [where Q = "\<lambda>i j. ?m ! i ! j"
          and w = "\<lambda>j. [1000, 890, 719, 503] ! j"])
      show "\<forall>i<4. \<forall>j<4. fundamentalSystem ?m ! i ! j = (if i = j then 1 else 0) - ?m ! i ! j"
        by (rule ent)
      show "\<forall>i<4. \<forall>j<4. 0 \<le> ?m ! i ! j"
        by (rule nn)
      show "\<forall>i<4. (\<Sum>j<4. ?m ! i ! j * [1000, 890, 719, 503] ! j)
          \<le> 247 / 250 * [1000, 890, 719, 503] ! i"
        by (rule parametric_contraction_low [OF assms(1,2,3) True])
      show "\<forall>i<4. (503::real) \<le> [1000, 890, 719, 503] ! i \<and> [1000, 890, 719, 503] ! i \<le> (1000::real)"
        by (simp add: all_less_4)
    qed simp_all
    then show ?thesis by (rule boundedBelow_mono) simp
  next
    case False
    then have hr: "1 / 10 \<le> r" by simp
    have "boundedBelow 4 (fundamentalSystem ?m) ((1 - 123 / 125) * (614 / 1000))"
    proof (rule dominant_boundedBelow [where Q = "\<lambda>i j. ?m ! i ! j"
          and w = "\<lambda>j. [1000, 909, 748, 614] ! j"])
      show "\<forall>i<4. \<forall>j<4. fundamentalSystem ?m ! i ! j = (if i = j then 1 else 0) - ?m ! i ! j"
        by (rule ent)
      show "\<forall>i<4. \<forall>j<4. 0 \<le> ?m ! i ! j"
        by (rule nn)
      show "\<forall>i<4. (\<Sum>j<4. ?m ! i ! j * [1000, 909, 748, 614] ! j)
          \<le> 123 / 125 * [1000, 909, 748, 614] ! i"
        by (rule parametric_contraction_high [OF assms(1,2) hr assms(4)])
      show "\<forall>i<4. (614::real) \<le> [1000, 909, 748, 614] ! i \<and> [1000, 909, 748, 614] ! i \<le> (1000::real)"
        by (simp add: all_less_4)
    qed simp_all
    then show ?thesis by (rule boundedBelow_mono) simp
  qed
qed

lemma parametric_solution:
  fixes e r :: real and a :: bool and t' :: Vector
  assumes "0 \<le> e" "e \<le> 1" "0 \<le> r" "r \<le> 1"
  defines "m \<equiv> generateParametricMatrix \<lparr>effort = e, risk = r, isAbsorbing = a\<rparr>"
  defines "t \<equiv> solveLinearSystem (fundamentalSystem m) (replicate 4 1)"
  shows "length t = 4"
    and "\<forall>i<4. (\<Sum>j<4. ((if i = j then 1 else 0) - m ! i ! j) * t ! j) = 1"
    and "(\<forall>i<4. (\<Sum>j<4. ((if i = j then 1 else 0) - m ! i ! j) * t' ! j) = 1)
           \<Longrightarrow> \<forall>i<4. t' ! i = t ! i"
proof -
  have rs: "row_stochastic 5 m"
    unfolding m_def by (rule generateParametricMatrix_stochastic [OF assms(1,3)])
  then have "\<forall>i<4. 4 \<le> length (m ! i)"
    by (simp add: row_stochastic_def)
  note ent = fundamentalSystem_entries [OF this]
  have bb: "boundedBelow 4 (fundamentalSystem m) (3 / 500)"
    unfolding m_def by (rule parametric_boundedBelow [OF assms(1-4)])
  have tol: "pivotTolerance \<le> 3 / 500"
    by (simp add: pivotTolerance_def)
  have np: "noPivotSkipped 4 (augment (fundamentalSystem m) (replicate 4 1)) [0..<4]"
    by (rule noPivotSkipped_boundedBelow [OF fundamentalSystem_shape bb tol])
  note sol = solveLinearSystem_solves [OF fundamentalSystem_shape np, folded t_def]
  show "length t = 4" by (rule sol(1))
  have row: "(\<Sum>j<4. ((if i = j then 1 else 0) - m ! i ! j) * x j)
      = (\<Sum>j<4. fundamentalSystem m ! i ! j * x j)" if "i < 4" for i and x :: "nat \<Rightarrow> real"
    using ent that by (intro sum.cong refl) simp
  show eqs: "\<forall>i<4. (\<Sum>j<4. ((if i = j then 1 else 0) - m ! i ! j) * t ! j) = 1"
    using sol(2) by (simp add: row)
  assume "\<forall>i<4. (\<Sum>j<4. ((if i = j then 1 else 0) - m ! i ! j) * t' ! j) = 1"
  with eqs have "\<forall>i<4. (\<Sum>j<4. fundamentalSystem m ! i ! j * t' ! j)
      = (\<Sum>j<4. fundamentalSystem m ! i ! j * t ! j)"
    by (simp add: row)
  from boundedBelow_unique [OF bb _ this] show "\<forall>i<4. t' ! i = t ! i"
    by simp
qed

text \<open>
  Claim C6. For \<open>effort\<close> and \<open>risk\<close> in \<open>[0, 1]\<close>, \<open>runPathSimulation\<close> reports no
  expected absorption time exactly when the bottom-right cell of the generated matrix does
  not exceed \<open>0.99\<close>, and reports one exactly when the absorbing flag is set. When the flag
  is set, the system \<open>(I - Q) t = 1\<close> over the four transient states of the generated
  matrix has a solution \<open>t\<close> of length 4, and the reported value is entry 0 of it; the
  solution is unique, so entry 0 of every solution of length 4 is the reported value.
\<close>

theorem expectedStepsToAbsorb_solution:
  assumes "0 \<le> effort config" and "effort config \<le> 1"
    and "0 \<le> risk config" and "risk config \<le> 1"
  shows "(expectedStepsToAbsorb (runPathSimulation config) = None
            \<longleftrightarrow> \<not> 99 / 100 < matrix (runPathSimulation config) ! 4 ! 4)
       \<and> (expectedStepsToAbsorb (runPathSimulation config) \<noteq> None \<longleftrightarrow> isAbsorbing config)
       \<and> (isAbsorbing config \<longrightarrow>
            (\<exists>t. length t = 4
               \<and> (\<forall>i<4. (\<Sum>j<4. ((if i = j then 1 else 0)
                              - matrix (runPathSimulation config) ! i ! j) * t ! j) = 1)
               \<and> expectedStepsToAbsorb (runPathSimulation config) = Some (t ! 0)))
       \<and> (\<forall>t. isAbsorbing config \<and> length t = 4
               \<and> (\<forall>i<4. (\<Sum>j<4. ((if i = j then 1 else 0)
                              - matrix (runPathSimulation config) ! i ! j) * t ! j) = 1)
             \<longrightarrow> expectedStepsToAbsorb (runPathSimulation config) = Some (t ! 0))"
proof -
  obtain e r a where c: "config = \<lparr>effort = e, risk = r, isAbsorbing = a\<rparr>"
    by (cases config) auto
  with assms have e: "0 \<le> e" "e \<le> 1" and r: "0 \<le> r" "r \<le> 1" by simp_all
  define m where "m = generateParametricMatrix \<lparr>effort = e, risk = r, isAbsorbing = a\<rparr>"
  define t0 where "t0 = solveLinearSystem (fundamentalSystem m) (replicate 4 1)"
  have top: "m ! 4 ! 4 = (if a then 1 else 1 / 2 - r * 3 / 10)"
    unfolding m_def by (rule parametric_top_cell [OF r])
  note sol = parametric_solution [OF e r, of a, folded m_def, folded t0_def]
  have mat: "matrix (runPathSimulation config) = m"
    by (simp add: runPathSimulation_fields c m_def)
  have val: "expectedStepsToAbsorb (runPathSimulation config) = (if a then Some (t0 ! 0) else None)"
    using r by (simp add: runPathSimulation_fields calculateTimeToAbsorption_cases c
        m_def [symmetric] t0_def [symmetric] top)
  have cell: "99 / 100 < m ! 4 ! 4 \<longleftrightarrow> a"
    using r by (simp add: top)
  have abs: "isAbsorbing config = a" by (simp add: c)
  have ex: "\<exists>t. length t = 4
      \<and> (\<forall>i<4. (\<Sum>j<4. ((if i = j then 1 else 0) - m ! i ! j) * t ! j) = 1)
      \<and> (if a then Some (t0 ! 0) else None) = Some (t ! 0)" if a
    using sol(1,2) that by (intro exI [of _ t0]) simp
  have un: "(if a then Some (t0 ! 0) else None) = Some (t ! 0)"
    if a and "\<forall>i<4. (\<Sum>j<4. ((if i = j then 1 else 0) - m ! i ! j) * t ! j) = 1" for t
    using sol(3) [OF that(2)] that(1) by simp
  show ?thesis
    unfolding mat val abs using cell ex un by auto
qed

theorem expectedStepsToAbsorb_solution_witness:
  "0 \<le> effort \<lparr>effort = 0, risk = 0, isAbsorbing = True\<rparr>
   \<and> effort \<lparr>effort = 0, risk = 0, isAbsorbing = True\<rparr> \<le> 1
   \<and> 0 \<le> risk \<lparr>effort = 0, risk = 0, isAbsorbing = True\<rparr>
   \<and> risk \<lparr>effort = 0, risk = 0, isAbsorbing = True\<rparr> \<le> 1
   \<and> isAbsorbing \<lparr>effort = 0, risk = 0, isAbsorbing = True\<rparr>
   \<and> length [915860 / 10847, 822580 / 10847, 670680 / 10847, 465280 / 10847 :: real] = 4
   \<and> (\<Sum>j<4. ((if 0 = j then 1 else 0)
          - matrix (runPathSimulation \<lparr>effort = 0, risk = 0, isAbsorbing = True\<rparr>) ! 0 ! j)
        * [915860 / 10847, 822580 / 10847, 670680 / 10847, 465280 / 10847] ! j) = 1
   \<and> (\<Sum>j<4. ((if 1 = j then 1 else 0)
          - matrix (runPathSimulation \<lparr>effort = 0, risk = 0, isAbsorbing = True\<rparr>) ! 1 ! j)
        * [915860 / 10847, 822580 / 10847, 670680 / 10847, 465280 / 10847] ! j) = 1
   \<and> (\<Sum>j<4. ((if 2 = j then 1 else 0)
          - matrix (runPathSimulation \<lparr>effort = 0, risk = 0, isAbsorbing = True\<rparr>) ! 2 ! j)
        * [915860 / 10847, 822580 / 10847, 670680 / 10847, 465280 / 10847] ! j) = 1
   \<and> (\<Sum>j<4. ((if 3 = j then 1 else 0)
          - matrix (runPathSimulation \<lparr>effort = 0, risk = 0, isAbsorbing = True\<rparr>) ! 3 ! j)
        * [915860 / 10847, 822580 / 10847, 670680 / 10847, 465280 / 10847] ! j) = 1
   \<and> expectedStepsToAbsorb (runPathSimulation \<lparr>effort = 0, risk = 0, isAbsorbing = True\<rparr>)
       = Some (915860 / 10847)"
proof -
  let ?c = "\<lparr>effort = 0, risk = 0, isAbsorbing = True\<rparr>"
  let ?t = "[915860 / 10847, 822580 / 10847, 670680 / 10847, 465280 / 10847] :: Vector"
  have h: "0 \<le> effort ?c" "effort ?c \<le> 1" "0 \<le> risk ?c" "risk ?c \<le> 1"
    by simp_all
  have a: "isAbsorbing ?c" by simp
  have mat: "matrix (runPathSimulation ?c) =
     [[9 / 10, 9 / 100, 1 / 100, 0, 0],
      [3 / 20, 7 / 10, 7 / 50, 1 / 100, 0],
      [1 / 100, 1 / 5, 3 / 5, 9 / 50, 1 / 100],
      [0, 1 / 20, 1 / 5, 3 / 5, 3 / 20],
      [0, 0, 0, 0, 1]]"
    unfolding runPathSimulation_fields by (rule lockedBaseline_rows)
  have e0: "(\<Sum>j<4. ((if 0 = j then 1 else 0) - matrix (runPathSimulation ?c) ! 0 ! j) * ?t ! j) = 1"
    unfolding mat sum_lessThan_4 by simp
  have e1: "(\<Sum>j<4. ((if 1 = j then 1 else 0) - matrix (runPathSimulation ?c) ! 1 ! j) * ?t ! j) = 1"
    unfolding mat sum_lessThan_4 by simp
  have e2: "(\<Sum>j<4. ((if 2 = j then 1 else 0) - matrix (runPathSimulation ?c) ! 2 ! j) * ?t ! j) = 1"
    unfolding mat sum_lessThan_4 by simp
  have e3: "(\<Sum>j<4. ((if 3 = j then 1 else 0) - matrix (runPathSimulation ?c) ! 3 ! j) * ?t ! j) = 1"
    unfolding mat sum_lessThan_4 by simp
  from e0 e1 e2 e3
  have all: "\<forall>i<4. (\<Sum>j<4. ((if i = j then 1 else 0) - matrix (runPathSimulation ?c) ! i ! j) * ?t ! j) = 1"
    unfolding all_less_4 by blast
  note T = expectedStepsToAbsorb_solution [OF h]
  have len: "length ?t = 4" by simp
  from T [THEN conjunct2, THEN conjunct2, THEN conjunct2, rule_format, of ?t] a len all
  have "expectedStepsToAbsorb (runPathSimulation ?c) = Some (?t ! 0)"
    by blast
  then have "expectedStepsToAbsorb (runPathSimulation ?c) = Some (915860 / 10847)"
    by simp
  with h a len e0 e1 e2 e3 show ?thesis
    by blast
qed

end
